theory Spec2Isabelle
  imports Main
begin

unbundle bit_operations_syntax

section \<open>Page-block isolation (mm/page_isolation.c): the data model\<close>

text \<open>
  The model is sequential and has one zone. A frame number (pfn, an \<open>unsigned long\<close>
  in the source) is a \<open>nat\<close>: frame numbers are taken to be far below the word size, so
  no addition wraps, the \<open>int\<close> counter of \<open>__first_valid_page\<close> does not overflow, and
  the one subtraction of the source (\<open>end_pfn - start_pfn\<close>) is read for
  \<open>start_pfn \<le> end_pfn\<close>. A \<open>struct page *\<close> is identified with the frame number of the
  page (a flat \<open>mem_map\<close>), so pointer arithmetic on pages is arithmetic on frame
  numbers. The zone lock and the log calls are not modelled. Names that start with
  underscores in the source lose them here.
\<close>

text \<open>
  Modelled from the spec: the enum of migration types, declared in a header that is not
  part of the source file. The spec's data model lists these five labels.
\<close>

datatype migratetype =
  MIGRATE_UNMOVABLE | MIGRATE_MOVABLE | MIGRATE_RECLAIMABLE | MIGRATE_CMA | MIGRATE_ISOLATE

text \<open>
  Modelled from the spec: the number behind each label, as \<open>page_private(page) ==
  MIGRATE_ISOLATE\<close> compares an \<open>unsigned long\<close> with the enum constant. Only the
  injectivity of the numbering is used.
\<close>

primrec migratetype_val :: "migratetype \<Rightarrow> nat" where
  "migratetype_val MIGRATE_UNMOVABLE = 0"
| "migratetype_val MIGRATE_MOVABLE = 1"
| "migratetype_val MIGRATE_RECLAIMABLE = 2"
| "migratetype_val MIGRATE_CMA = 3"
| "migratetype_val MIGRATE_ISOLATE = 4"

text \<open>
  Modelled from the spec: \<open>struct page\<close>, declared in a header outside the source file,
  with the attributes of the spec's data model that the source reads: the reference
  count, the private word, the buddy flag and the buddy order, the hardware-poison flag,
  the freepage-migratetype hint, and the migration type of the free list the page sits
  on while it is a buddy page.
\<close>

record page =
  p_count :: int
  p_private :: nat
  p_buddy :: bool
  p_order :: nat
  p_hwpoison :: bool
  p_freepage_mt :: migratetype
  p_free_list :: migratetype

text \<open>
  A call of the range layer (driver and verifier) into the isolation primitive or the
  free-list mover. The zone keeps the history of these calls in the ghost field
  \<open>calls\<close>, written where the source makes the call and read by no function.
\<close>

datatype call =
  Call_set_isolate nat bool
| Call_unset_isolate nat migratetype
| Call_move_freepages nat nat migratetype

text \<open>
  Modelled from the spec: the zone, declared in a header outside the source file. It
  holds \<open>pageblock_order\<close> (a constant of the build, never written), the validity of each
  frame, the page of each frame, the label of each pageblock (indexed by pageblock
  number), the free-page counter of each migration type, and the ghost call history.
\<close>

record zone =
  pageblock_order :: nat
  pfn_valid :: "nat \<Rightarrow> bool"
  mem_map :: "nat \<Rightarrow> page"
  pageblock_flags :: "nat \<Rightarrow> migratetype"
  vm_stat :: "migratetype \<Rightarrow> int"
  calls :: "call list"

text \<open>\<open>BUG_ON\<close> aborts the call; the abort is the one fault of the model.\<close>

datatype fault = BUG

text \<open>Modelled from the spec: the error number behind \<open>BUSY\<close>, a macro of a header.\<close>

definition EBUSY :: int where
  "EBUSY = 16"

text \<open>
  Modelled from the spec: \<open>pageblock_nr_pages\<close>, a macro of a header; the pageblock size
  \<open>B\<close> of the spec, a power of two.
\<close>

definition pageblock_nr_pages :: "zone \<Rightarrow> nat" where
  "pageblock_nr_pages z = 2 ^ pageblock_order z"

text \<open>The ghost record of a call.\<close>

definition note_call :: "call \<Rightarrow> zone \<Rightarrow> zone" where
  "note_call c z = z\<lparr>calls := calls z @ [c]\<rparr>"

subsection \<open>Accessors of the allocator\<close>

text \<open>
  The accessors consumed from the allocator are macros and inline functions of headers
  outside the source file. Each reads one attribute.
\<close>

text \<open>Modelled from the spec: \<open>valid(fn)\<close>, the validity predicate of a frame.\<close>

definition pfn_valid_within :: "zone \<Rightarrow> nat \<Rightarrow> bool" where
  "pfn_valid_within z pfn = pfn_valid z pfn"

text \<open>
  Modelled from the spec: \<open>page_of(fn)\<close>. The page of a frame is named by the frame
  number, whether the frame is valid or not.
\<close>

definition pfn_to_page :: "nat \<Rightarrow> nat" where
  "pfn_to_page pfn = pfn"

text \<open>Modelled from the spec: \<open>is_buddy(page)\<close>, the buddy-membership flag.\<close>

definition PageBuddy :: "zone \<Rightarrow> nat \<Rightarrow> bool" where
  "PageBuddy z pg = p_buddy (mem_map z pg)"

text \<open>Modelled from the spec: \<open>order(page)\<close>, the buddy order of a buddy page.\<close>

definition page_order :: "zone \<Rightarrow> nat \<Rightarrow> nat" where
  "page_order z pg = p_order (mem_map z pg)"

text \<open>Modelled from the spec: \<open>refcount(page)\<close>.\<close>

definition page_count :: "zone \<Rightarrow> nat \<Rightarrow> int" where
  "page_count z pg = p_count (mem_map z pg)"

text \<open>Modelled from the spec: the generic accessor of the page private field.\<close>

definition page_private :: "zone \<Rightarrow> nat \<Rightarrow> nat" where
  "page_private z pg = p_private (mem_map z pg)"

text \<open>Modelled from the spec: \<open>freepage_migratetype(page)\<close>, the typed accessor of the hint.\<close>

definition get_freepage_migratetype :: "zone \<Rightarrow> nat \<Rightarrow> migratetype" where
  "get_freepage_migratetype z pg = p_freepage_mt (mem_map z pg)"

text \<open>Modelled from the spec: \<open>is_poisoned(page)\<close>.\<close>

definition PageHWPoison :: "zone \<Rightarrow> nat \<Rightarrow> bool" where
  "PageHWPoison z pg = p_hwpoison (mem_map z pg)"

text \<open>
  Modelled from the spec: \<open>get_pageblock_migratetype\<close> (4.A) reads the label of the
  pageblock containing the page.
\<close>

definition get_pageblock_migratetype :: "zone \<Rightarrow> nat \<Rightarrow> migratetype" where
  "get_pageblock_migratetype z pg = pageblock_flags z (pg div pageblock_nr_pages z)"

text \<open>
  Modelled from the spec: \<open>set_pageblock_migratetype\<close> (4.A) writes the label of the
  pageblock containing the page.
\<close>

definition set_pageblock_migratetype :: "zone \<Rightarrow> nat \<Rightarrow> migratetype \<Rightarrow> zone" where
  "set_pageblock_migratetype z pg mt =
     z\<lparr>pageblock_flags := (pageblock_flags z)(pg div pageblock_nr_pages z := mt)\<rparr>"

text \<open>
  Modelled from the spec: \<open>__mod_zone_freepage_state\<close>, the free-page counter update hook,
  adds a signed count to the counter of one migration type.
\<close>

definition mod_zone_freepage_state :: "zone \<Rightarrow> int \<Rightarrow> migratetype \<Rightarrow> zone" where
  "mod_zone_freepage_state z n mt = z\<lparr>vm_stat := (vm_stat z)(mt := vm_stat z mt + n)\<rparr>"

subsection \<open>The free-list mover\<close>

text \<open>
  Modelled from the spec: the pages that \<open>move_freepages\<close> relocates (4.B), the free pages
  of the inclusive extent: its valid frames whose page is a buddy page.
\<close>

definition moved_page :: "zone \<Rightarrow> nat \<Rightarrow> nat \<Rightarrow> nat \<Rightarrow> bool" where
  "moved_page z start_page end_page f \<longleftrightarrow>
     start_page \<le> f \<and> f \<le> end_page \<and> pfn_valid z f \<and> p_buddy (mem_map z f)"

text \<open>
  Modelled from the spec: \<open>move_freepages(zone, first, last, target_mt)\<close> (4.B) relocates
  every free page in the inclusive extent to the free list of the target type, at the
  page's order, stamps the page's hint with the target type, and returns the number of
  frames relocated (the sum of \<open>2 ^ order\<close> over the moved pages).
\<close>

definition move_freepages :: "zone \<Rightarrow> nat \<Rightarrow> nat \<Rightarrow> migratetype \<Rightarrow> zone \<times> nat" where
  "move_freepages z start_page end_page mt =
     (z\<lparr>mem_map := (\<lambda>f. if moved_page z start_page end_page f
                          then (mem_map z f)\<lparr>p_freepage_mt := mt, p_free_list := mt\<rparr>
                          else mem_map z f)\<rparr>,
      sum_list (map (\<lambda>f. if moved_page z start_page end_page f then 2 ^ p_order (mem_map z f) else 0)
                    [start_page..<Suc end_page]))"

text \<open>
  Modelled from the spec: \<open>move_freepages_block\<close> (4.B) does the same for the whole
  pageblock containing the page.
\<close>

definition move_freepages_block :: "zone \<Rightarrow> nat \<Rightarrow> migratetype \<Rightarrow> zone \<times> nat" where
  "move_freepages_block z pg mt =
     (let start_pfn = (pg div pageblock_nr_pages z) * pageblock_nr_pages z
      in move_freepages z start_pfn (start_pfn + pageblock_nr_pages z - 1) mt)"

subsection \<open>The isolation primitive\<close>

text \<open>
  Modelled from the spec: \<open>set_migratetype_isolate_cma\<close> (4.C) is defined outside the
  source file. It fails with \<open>-EBUSY\<close>, mutating nothing, when the allocator's predicate
  \<open>has_unmovable_pages\<close> holds; otherwise it sets the label to \<open>MIGRATE_ISOLATE\<close>, moves
  the block's free pages to the \<open>MIGRATE_ISOLATE\<close> list and takes the moved count from
  the counter of the former label. The predicate is a parameter \<open>hup\<close> of the model: any
  function of the zone, the page and the skip-poisoned flag.
\<close>

type_synonym unmovable = "zone \<Rightarrow> nat \<Rightarrow> bool \<Rightarrow> bool"

definition set_migratetype_isolate_cma :: "unmovable \<Rightarrow> zone \<Rightarrow> nat \<Rightarrow> bool \<Rightarrow> int \<times> zone" where
  "set_migratetype_isolate_cma hup z pg skip_hwpoisoned_pages =
     (if hup z pg skip_hwpoisoned_pages then (- EBUSY, z)
      else
        let migratetype = get_pageblock_migratetype z pg;
            z1 = set_pageblock_migratetype z pg MIGRATE_ISOLATE;
            (z2, nr_pages) = move_freepages_block z1 pg MIGRATE_ISOLATE
        in (0, mod_zone_freepage_state z2 (- int nr_pages) migratetype))"

text \<open>\<open>unset_migratetype_isolate_cma\<close> (source lines 149-163).\<close>

definition unset_migratetype_isolate_cma :: "zone \<Rightarrow> nat \<Rightarrow> migratetype \<Rightarrow> zone" where
  "unset_migratetype_isolate_cma z pg migratetype =
     (if get_pageblock_migratetype z pg \<noteq> MIGRATE_ISOLATE then z
      else
        let (z1, nr_pages) = move_freepages_block z pg migratetype;
            z2 = mod_zone_freepage_state z1 (int nr_pages) migratetype
        in set_pageblock_migratetype z2 pg migratetype)"

subsection \<open>The first valid page of a run of frames\<close>

text \<open>
  \<open>__first_valid_page\<close> (source lines 10-23): the loop over \<open>i\<close>, then the test
  \<open>i == nr_pages\<close>; \<open>None\<close> is the source's \<open>NULL\<close>.
\<close>

function first_valid_scan :: "zone \<Rightarrow> nat \<Rightarrow> nat \<Rightarrow> nat \<Rightarrow> nat" where
  "first_valid_scan z pfn nr_pages i =
     (if i < nr_pages
      then (if pfn_valid_within z (pfn + i) then i
            else first_valid_scan z pfn nr_pages (i + 1))
      else i)"
  by pat_completeness auto
termination
  by (relation "measure (\<lambda>(z, pfn, nr_pages, i). nr_pages - i)") auto

definition first_valid_page :: "zone \<Rightarrow> nat \<Rightarrow> nat \<Rightarrow> nat option" where
  "first_valid_page z pfn nr_pages =
     (let i = first_valid_scan z pfn nr_pages 0
      in if i = nr_pages then None else Some (pfn_to_page (pfn + i)))"

subsection \<open>The range driver\<close>

text \<open>
  \<open>start_isolate_page_range_cma\<close> (source lines 180-209). \<open>isolate_scan\<close> is the forward
  loop: it returns \<open>Some undo_pfn\<close> where the source jumps to \<open>undo\<close>, and \<open>None\<close> where
  the loop runs to its end. \<open>isolate_undo\<close> is the loop after the label \<open>undo\<close>.
  \<open>BUG_ON\<close> aborts: the result is \<open>Inl\<close> with the zone at the abort.
\<close>

function isolate_scan :: "unmovable \<Rightarrow> zone \<Rightarrow> nat \<Rightarrow> nat \<Rightarrow> bool \<Rightarrow> zone \<times> nat option" where
  "isolate_scan hup z pfn end_pfn skip_hwpoisoned_pages =
     (if pfn < end_pfn
      then (case first_valid_page z pfn (pageblock_nr_pages z) of
              None \<Rightarrow> isolate_scan hup z (pfn + pageblock_nr_pages z) end_pfn skip_hwpoisoned_pages
            | Some pg \<Rightarrow>
                (case set_migratetype_isolate_cma hup
                        (note_call (Call_set_isolate pg skip_hwpoisoned_pages) z)
                        pg skip_hwpoisoned_pages of
                   (ret, z') \<Rightarrow>
                     if ret \<noteq> 0 then (z', Some pfn)
                     else isolate_scan hup z' (pfn + pageblock_nr_pages z') end_pfn
                            skip_hwpoisoned_pages))
      else (z, None))"
  by pat_completeness auto
termination
  by (relation "measure (\<lambda>(hup, z, pfn, end_pfn, skip). end_pfn - pfn)")
     (auto simp: pageblock_nr_pages_def intro!: diff_less_mono2)

function isolate_undo :: "zone \<Rightarrow> nat \<Rightarrow> nat \<Rightarrow> migratetype \<Rightarrow> zone" where
  "isolate_undo z pfn undo_pfn migratetype =
     (if pfn < undo_pfn
      then (let z' = unset_migratetype_isolate_cma
                       (note_call (Call_unset_isolate (pfn_to_page pfn) migratetype) z)
                       (pfn_to_page pfn) migratetype
            in isolate_undo z' (pfn + pageblock_nr_pages z') undo_pfn migratetype)
      else z)"
  by pat_completeness auto
termination
  by (relation "measure (\<lambda>(z, pfn, undo_pfn, mt). undo_pfn - pfn)")
     (auto simp: pageblock_nr_pages_def intro!: diff_less_mono2)

definition start_isolate_page_range_cma ::
  "unmovable \<Rightarrow> zone \<Rightarrow> nat \<Rightarrow> nat \<Rightarrow> migratetype \<Rightarrow> bool \<Rightarrow> fault \<times> zone + int \<times> zone" where
  "start_isolate_page_range_cma hup z start_pfn end_pfn migratetype skip_hwpoisoned_pages =
     (if start_pfn AND (pageblock_nr_pages z - 1) \<noteq> 0 then Inl (BUG, z)
      else if end_pfn AND (pageblock_nr_pages z - 1) \<noteq> 0 then Inl (BUG, z)
      else
        (case isolate_scan hup z start_pfn end_pfn skip_hwpoisoned_pages of
           (z1, None) \<Rightarrow> Inr (0, z1)
         | (z1, Some undo_pfn) \<Rightarrow> Inr (- EBUSY, isolate_undo z1 start_pfn undo_pfn migratetype)))"

text \<open>\<open>undo_isolate_page_range_cma\<close> (source lines 215-231).\<close>

function undo_scan :: "zone \<Rightarrow> nat \<Rightarrow> nat \<Rightarrow> migratetype \<Rightarrow> zone" where
  "undo_scan z pfn end_pfn migratetype =
     (if pfn < end_pfn
      then (case first_valid_page z pfn (pageblock_nr_pages z) of
              None \<Rightarrow> undo_scan z (pfn + pageblock_nr_pages z) end_pfn migratetype
            | Some pg \<Rightarrow>
                if get_pageblock_migratetype z pg \<noteq> MIGRATE_ISOLATE
                then undo_scan z (pfn + pageblock_nr_pages z) end_pfn migratetype
                else (let z' = unset_migratetype_isolate_cma
                                 (note_call (Call_unset_isolate pg migratetype) z) pg migratetype
                      in undo_scan z' (pfn + pageblock_nr_pages z') end_pfn migratetype))
      else z)"
  by pat_completeness auto
termination
  by (relation "measure (\<lambda>(z, pfn, end_pfn, mt). end_pfn - pfn)")
     (auto simp: pageblock_nr_pages_def intro!: diff_less_mono2)

definition undo_isolate_page_range_cma ::
  "zone \<Rightarrow> nat \<Rightarrow> nat \<Rightarrow> migratetype \<Rightarrow> fault \<times> zone + int \<times> zone" where
  "undo_isolate_page_range_cma z start_pfn end_pfn migratetype =
     (if start_pfn AND (pageblock_nr_pages z - 1) \<noteq> 0 then Inl (BUG, z)
      else if end_pfn AND (pageblock_nr_pages z - 1) \<noteq> 0 then Inl (BUG, z)
      else Inr (0, undo_scan z start_pfn end_pfn migratetype))"

subsection \<open>The range verifier\<close>

text \<open>
  \<open>__test_page_isolated_in_pageblock_cma\<close> (source lines 240-305). \<open>isolated_walk_cma\<close> is
  the while loop; it returns the frame number the loop stops at, the zone, and the value
  written to \<open>*pfailed_pfn\<close> (\<open>None\<close> when the source does not write it).
\<close>

function isolated_walk_cma :: "zone \<Rightarrow> nat \<Rightarrow> nat \<Rightarrow> bool \<Rightarrow> nat \<times> zone \<times> nat option" where
  "isolated_walk_cma z pfn end_pfn skip_hwpoisoned_pages =
     (if pfn < end_pfn
      then
        if \<not> pfn_valid_within z pfn
        then isolated_walk_cma z (pfn + 1) end_pfn skip_hwpoisoned_pages
        else
          (let pg = pfn_to_page pfn in
           if PageBuddy z pg
           then
             (let z' = (if get_freepage_migratetype z pg \<noteq> MIGRATE_ISOLATE
                        then (let end_page = pg + 2 ^ page_order z pg - 1
                              in fst (move_freepages
                                        (note_call (Call_move_freepages pg end_page MIGRATE_ISOLATE) z)
                                        pg end_page MIGRATE_ISOLATE))
                        else z)
              in isolated_walk_cma z' (pfn + 2 ^ page_order z' pg) end_pfn skip_hwpoisoned_pages)
           else if page_count z pg = 0 \<and> get_freepage_migratetype z pg = MIGRATE_ISOLATE
           then isolated_walk_cma z (pfn + 1) end_pfn skip_hwpoisoned_pages
           else if skip_hwpoisoned_pages \<and> PageHWPoison z pg
           then isolated_walk_cma z (pfn + 1) end_pfn skip_hwpoisoned_pages
           else (pfn, z, Some pfn))
      else (pfn, z, None))"
  by pat_completeness auto
termination
  by (relation "measure (\<lambda>(z, pfn, end_pfn, skip). end_pfn - pfn)")
     (auto intro!: diff_less_mono2)

definition test_page_isolated_in_pageblock_cma ::
  "zone \<Rightarrow> nat \<Rightarrow> nat \<Rightarrow> bool \<Rightarrow> int \<times> zone \<times> nat option" where
  "test_page_isolated_in_pageblock_cma z pfn end_pfn skip_hwpoisoned_pages =
     (case isolated_walk_cma z pfn end_pfn skip_hwpoisoned_pages of
        (pfn', z', failed) \<Rightarrow> (if pfn' < end_pfn then 0 else 1, z', failed))"

text \<open>
  The label check that opens both \<open>test_pages_isolated\<close> and \<open>test_pages_isolated_cma\<close>
  (source lines 131-135 and 320-327): the frame number the loop stops at.
\<close>

function label_scan :: "zone \<Rightarrow> nat \<Rightarrow> nat \<Rightarrow> nat" where
  "label_scan z pfn end_pfn =
     (if pfn < end_pfn
      then (case first_valid_page z pfn (pageblock_nr_pages z) of
              None \<Rightarrow> label_scan z (pfn + pageblock_nr_pages z) end_pfn
            | Some pg \<Rightarrow>
                if get_pageblock_migratetype z pg \<noteq> MIGRATE_ISOLATE then pfn
                else label_scan z (pfn + pageblock_nr_pages z) end_pfn)
      else pfn)"
  by pat_completeness auto
termination
  by (relation "measure (\<lambda>(z, pfn, end_pfn). end_pfn - pfn)")
     (auto simp: pageblock_nr_pages_def intro!: diff_less_mono2)

text \<open>\<open>test_pages_isolated_cma\<close> (source lines 307-341).\<close>

definition test_pages_isolated_cma ::
  "zone \<Rightarrow> nat \<Rightarrow> nat \<Rightarrow> bool \<Rightarrow> int \<times> zone \<times> nat option" where
  "test_pages_isolated_cma z start_pfn end_pfn skip_hwpoisoned_pages =
     (let pfn = label_scan z start_pfn end_pfn;
          pg = first_valid_page z start_pfn (end_pfn - start_pfn)
      in if pfn < end_pfn \<or> pg = None then (- EBUSY, z, None)
         else
           (case test_page_isolated_in_pageblock_cma z start_pfn end_pfn skip_hwpoisoned_pages of
              (ret, z', failed) \<Rightarrow> (if ret \<noteq> 0 then 0 else - EBUSY, z', failed)))"

subsection \<open>The legacy verifier\<close>




subsection \<open>Vocabulary of the statements\<close>

text \<open>
  A pageblock, named by its number, holds a valid frame when the scan of
  \<open>__first_valid_page\<close> over its frames finds one.
\<close>

definition pageblock_has_valid :: "zone \<Rightarrow> nat \<Rightarrow> bool" where
  "pageblock_has_valid z b \<longleftrightarrow>
     first_valid_page z (b * pageblock_nr_pages z) (pageblock_nr_pages z) \<noteq> None"

text \<open>
  Where the forward loop of the driver stopped: the failing frame number, or the end of
  the range.
\<close>

definition scan_limit :: "nat option \<Rightarrow> nat \<Rightarrow> nat" where
  "scan_limit r e = (case r of None \<Rightarrow> e | Some u \<Rightarrow> u)"

text \<open>
  What the forward loop, started at \<open>pfn\<close> in zone \<open>z\<close>, leaves behind: the constants of
  the zone, the place it stopped at, the label of every pageblock, and the calls it made.
\<close>

definition isolate_scan_post :: "nat \<Rightarrow> bool \<Rightarrow> zone \<Rightarrow> nat \<Rightarrow> zone \<times> nat option \<Rightarrow> bool" where
  "isolate_scan_post e skip z pfn res \<longleftrightarrow>
     (case res of (z1, r) \<Rightarrow>
        pageblock_order z1 = pageblock_order z \<and> pfn_valid z1 = pfn_valid z \<and>
        (\<forall>u. r = Some u \<longrightarrow> pfn \<le> u \<and> u < e \<and> pageblock_nr_pages z dvd u \<and>
               pageblock_has_valid z (u div pageblock_nr_pages z)) \<and>
        (\<forall>b. pageblock_flags z1 b =
               (if pfn div pageblock_nr_pages z \<le> b \<and> b * pageblock_nr_pages z < scan_limit r e \<and>
                   pageblock_has_valid z b
                then MIGRATE_ISOLATE else pageblock_flags z b)) \<and>
        (\<exists>cs. calls z1 = calls z @ cs \<and>
              (\<forall>c \<in> set cs. \<exists>pg. c = Call_set_isolate pg skip \<and> pfn_valid z pg \<and> pfn \<le> pg)))"

text \<open>
  What the loop of \<open>undo_isolate_page_range_cma\<close>, started at \<open>pfn\<close> in zone \<open>z\<close>, leaves
  behind: the constants of the zone, the label of every pageblock and the page of every
  frame.
\<close>

definition undo_scan_post :: "nat \<Rightarrow> migratetype \<Rightarrow> zone \<Rightarrow> nat \<Rightarrow> zone \<Rightarrow> bool" where
  "undo_scan_post e mt z pfn z1 \<longleftrightarrow>
     pageblock_order z1 = pageblock_order z \<and> pfn_valid z1 = pfn_valid z \<and>
     (\<forall>b. pageblock_flags z1 b =
            (if pfn div pageblock_nr_pages z \<le> b \<and> b * pageblock_nr_pages z < e \<and>
                pageblock_has_valid z b \<and> pageblock_flags z b = MIGRATE_ISOLATE
             then mt else pageblock_flags z b)) \<and>
     (\<forall>f. mem_map z1 f =
            (if pfn div pageblock_nr_pages z \<le> f div pageblock_nr_pages z \<and>
                f div pageblock_nr_pages z * pageblock_nr_pages z < e \<and>
                pageblock_flags z (f div pageblock_nr_pages z) = MIGRATE_ISOLATE \<and>
                pfn_valid z f \<and> p_buddy (mem_map z f)
             then (mem_map z f)\<lparr>p_freepage_mt := mt, p_free_list := mt\<rparr> else mem_map z f))"

text \<open>
  The verdict of the verifier on one frame \<open>f\<close> of a walk started at \<open>start\<close>: the frame
  is buddy-free with hint \<open>MIGRATE_ISOLATE\<close> (it lies in the extent of a valid buddy page
  \<open>h\<close> of the walk, whose hint is \<open>MIGRATE_ISOLATE\<close>; \<open>h = f\<close> for the buddy page itself),
  or its page has reference count 0 and hint \<open>MIGRATE_ISOLATE\<close>, or hardware-poisoned
  pages are skipped and its page is one.
\<close>

definition frame_isolated :: "zone \<Rightarrow> bool \<Rightarrow> nat \<Rightarrow> nat \<Rightarrow> bool" where
  "frame_isolated z skip start f \<longleftrightarrow>
     (\<exists>h \<in> {start..f}. f < h + 2 ^ page_order z h \<and> pfn_valid z h \<and> PageBuddy z h \<and>
         get_freepage_migratetype z h = MIGRATE_ISOLATE) \<or>
     (page_count z f = 0 \<and> get_freepage_migratetype z f = MIGRATE_ISOLATE) \<or>
     (skip \<and> PageHWPoison z f)"

text \<open>
  The zone after the repair of the buddy page \<open>pg\<close> by the verifier (source lines 260-267):
  the call is recorded and the extent of the page moved to the \<open>MIGRATE_ISOLATE\<close> list.
\<close>

definition repair_extent :: "zone \<Rightarrow> nat \<Rightarrow> zone" where
  "repair_extent z pg =
     fst (move_freepages
            (note_call (Call_move_freepages pg (pg + 2 ^ page_order z pg - 1) MIGRATE_ISOLATE) z)
            pg (pg + 2 ^ page_order z pg - 1) MIGRATE_ISOLATE)"

text \<open>
  What a walk of the verifier may change between zone \<open>z\<close> and zone \<open>z'\<close>: only hints and
  free lists of valid buddy pages, and only towards \<open>MIGRATE_ISOLATE\<close>.
\<close>

definition walk_keeps :: "zone \<Rightarrow> zone \<Rightarrow> bool" where
  "walk_keeps z z' \<longleftrightarrow>
     pageblock_order z' = pageblock_order z \<and> pfn_valid z' = pfn_valid z \<and>
     pageblock_flags z' = pageblock_flags z \<and> vm_stat z' = vm_stat z \<and>
     (\<forall>f. p_count (mem_map z' f) = p_count (mem_map z f) \<and>
          p_private (mem_map z' f) = p_private (mem_map z f) \<and>
          p_buddy (mem_map z' f) = p_buddy (mem_map z f) \<and>
          p_order (mem_map z' f) = p_order (mem_map z f) \<and>
          p_hwpoison (mem_map z' f) = p_hwpoison (mem_map z f) \<and>
          (p_freepage_mt (mem_map z f) = MIGRATE_ISOLATE \<longrightarrow>
             p_freepage_mt (mem_map z' f) = MIGRATE_ISOLATE) \<and>
          (p_free_list (mem_map z f) = MIGRATE_ISOLATE \<longrightarrow>
             p_free_list (mem_map z' f) = MIGRATE_ISOLATE) \<and>
          (\<not> (pfn_valid z f \<and> p_buddy (mem_map z f)) \<longrightarrow> mem_map z' f = mem_map z f))"

text \<open>
  What the walk of the verifier, started at \<open>pfn\<close> in zone \<open>z\<close>, returns: where it stopped,
  what it wrote to \<open>*pfailed_pfn\<close>, and the verdict on every frame it passed.
\<close>

definition isolated_walk_post ::
  "nat \<Rightarrow> bool \<Rightarrow> zone \<Rightarrow> nat \<Rightarrow> nat \<times> zone \<times> nat option \<Rightarrow> bool" where
  "isolated_walk_post e skip z pfn res \<longleftrightarrow>
     (case res of (p', z', failed) \<Rightarrow>
        walk_keeps z z' \<and> pfn \<le> p' \<and>
        (failed = None \<longrightarrow> e \<le> p') \<and>
        (\<forall>f. failed = Some f \<longrightarrow>
             f = p' \<and> p' < e \<and> pfn_valid z' f \<and> \<not> PageBuddy z' f \<and>
             \<not> (page_count z' f = 0 \<and> get_freepage_migratetype z' f = MIGRATE_ISOLATE) \<and>
             \<not> (skip \<and> PageHWPoison z' f)) \<and>
        (\<forall>f. pfn \<le> f \<and> f < p' \<and> pfn_valid z' f \<longrightarrow> frame_isolated z' skip pfn f))"

text \<open>
  The return value of a call of the driver (\<open>None\<close> when it aborted) and the zone it
  left behind.
\<close>

definition ret_of :: "fault \<times> zone + int \<times> zone \<Rightarrow> int option" where
  "ret_of r = (case r of Inl _ \<Rightarrow> None | Inr (ret, _) \<Rightarrow> Some ret)"

definition zone_of :: "fault \<times> zone + int \<times> zone \<Rightarrow> zone" where
  "zone_of r = (case r of Inl (_, z) \<Rightarrow> z | Inr (_, z) \<Rightarrow> z)"

subsection \<open>Example zones\<close>

text \<open>
  Pages and small zones on which the theorems are instantiated. Pageblocks have two
  frames (\<open>pageblock_order = 1\<close>). \<open>free_page k mt\<close> is a buddy page of order \<open>k\<close> on the
  free list of \<open>mt\<close>; \<open>tail_page\<close> is a page inside a buddy extent; \<open>pcp_page\<close> has been
  freed with hint \<open>MIGRATE_ISOLATE\<close> and is not yet a buddy page. \<open>pinned_from n\<close> is an
  allocator predicate that finds an unmovable page in every pageblock whose first valid
  page is at frame \<open>n\<close> or above.
\<close>

definition free_page :: "nat \<Rightarrow> migratetype \<Rightarrow> page" where
  "free_page k mt =
     \<lparr>p_count = 0, p_private = k, p_buddy = True, p_order = k, p_hwpoison = False,
      p_freepage_mt = mt, p_free_list = mt\<rparr>"


definition used_page :: page where
  "used_page =
     \<lparr>p_count = 1, p_private = 0, p_buddy = False, p_order = 0, p_hwpoison = False,
      p_freepage_mt = MIGRATE_MOVABLE, p_free_list = MIGRATE_MOVABLE\<rparr>"

definition tail_page :: page where
  "tail_page =
     \<lparr>p_count = 0, p_private = 0, p_buddy = False, p_order = 0, p_hwpoison = False,
      p_freepage_mt = MIGRATE_MOVABLE, p_free_list = MIGRATE_MOVABLE\<rparr>"

definition pcp_page :: page where
  "pcp_page =
     \<lparr>p_count = 0, p_private = migratetype_val MIGRATE_ISOLATE, p_buddy = False, p_order = 0,
      p_hwpoison = False, p_freepage_mt = MIGRATE_ISOLATE, p_free_list = MIGRATE_ISOLATE\<rparr>"

definition poisoned_page :: page where
  "poisoned_page =
     \<lparr>p_count = 1, p_private = 0, p_buddy = False, p_order = 0, p_hwpoison = True,
      p_freepage_mt = MIGRATE_MOVABLE, p_free_list = MIGRATE_MOVABLE\<rparr>"

definition pinned_from :: "nat \<Rightarrow> unmovable" where
  "pinned_from n z pg skip \<longleftrightarrow> n \<le> pg"

text \<open>
  \<open>zone_a\<close>: four valid frames in two pageblocks labelled \<open>MIGRATE_MOVABLE\<close>; frame 0 is
  free.
\<close>

definition zone_a :: zone where
  "zone_a =
     \<lparr>pageblock_order = 1, pfn_valid = (\<lambda>f. f < 4),
      mem_map = (\<lambda>f. if f = 0 then free_page 0 MIGRATE_MOVABLE else used_page),
      pageblock_flags = (\<lambda>b. MIGRATE_MOVABLE),
      vm_stat = (\<lambda>mt. 0), calls = []\<rparr>"

text \<open>
  \<open>zone_b\<close>: as \<open>zone_a\<close>, but pageblock 0 is labelled \<open>MIGRATE_ISOLATE\<close> and its free page
  is on the \<open>MIGRATE_ISOLATE\<close> list.
\<close>

definition zone_b :: zone where
  "zone_b =
     \<lparr>pageblock_order = 1, pfn_valid = (\<lambda>f. f < 4),
      mem_map = (\<lambda>f. if f = 0 then free_page 0 MIGRATE_ISOLATE else used_page),
      pageblock_flags = (\<lambda>b. if b = 0 then MIGRATE_ISOLATE else MIGRATE_MOVABLE),
      vm_stat = (\<lambda>mt. 0), calls = []\<rparr>"

text \<open>
  \<open>zone_c\<close>: frames 0 and 1 are absent, frames 2 to 5 are valid and in use; pageblock 0
  is labelled \<open>MIGRATE_ISOLATE\<close>.
\<close>

definition zone_c :: zone where
  "zone_c =
     \<lparr>pageblock_order = 1, pfn_valid = (\<lambda>f. 2 \<le> f \<and> f < 6),
      mem_map = (\<lambda>f. used_page),
      pageblock_flags = (\<lambda>b. if b = 0 then MIGRATE_ISOLATE else MIGRATE_MOVABLE),
      vm_stat = (\<lambda>mt. 0), calls = []\<rparr>"

text \<open>
  \<open>zone_d\<close>: an isolated range after a race. The buddy page of order 1 at frame 0 sits
  on the \<open>MIGRATE_MOVABLE\<close> list, frame 2 has just been freed, frame 3 is
  hardware-poisoned and in use.
\<close>

definition zone_d :: zone where
  "zone_d =
     \<lparr>pageblock_order = 1, pfn_valid = (\<lambda>f. f < 4),
      mem_map = (\<lambda>f. if f = 0 then free_page 1 MIGRATE_MOVABLE
                      else if f = 1 then tail_page
                      else if f = 2 then pcp_page else poisoned_page),
      pageblock_flags = (\<lambda>b. MIGRATE_ISOLATE),
      vm_stat = (\<lambda>mt. 0), calls = []\<rparr>"


section \<open>Basic facts\<close>

text \<open>The loops are unfolded by hand, one iteration at a time.\<close>

declare first_valid_scan.simps [simp del]

declare isolate_scan.simps [simp del]

declare isolate_undo.simps [simp del]

declare undo_scan.simps [simp del]

declare isolated_walk_cma.simps [simp del]

declare label_scan.simps [simp del]


lemma pageblock_nr_pages_pos: "0 < pageblock_nr_pages z"
  by (simp add: pageblock_nr_pages_def)

subsection \<open>Alignment and the first valid page\<close>

lemma pow2_and: "(n::nat) AND (2 ^ k - 1) = n mod 2 ^ k"
  by (metis mask_eq_exp_minus_1 take_bit_eq_mask take_bit_eq_mod)

lemma aligned_iff: "(pfn AND (pageblock_nr_pages z - 1) \<noteq> 0) \<longleftrightarrow> \<not> pageblock_nr_pages z dvd pfn"
  unfolding pageblock_nr_pages_def pow2_and by (simp add: dvd_eq_mod_eq_0)

lemma first_valid_scan_spec:
  "i \<le> nr \<Longrightarrow> first_valid_scan z pfn nr i = r \<Longrightarrow>
     i \<le> r \<and> r \<le> nr \<and> (r < nr \<longrightarrow> pfn_valid z (pfn + r)) \<and> (\<forall>j. i \<le> j \<and> j < r \<longrightarrow> \<not> pfn_valid z (pfn + j))"
proof (induction z pfn nr i arbitrary: r rule: first_valid_scan.induct)
  case (1 z pfn nr i)
  note unf = first_valid_scan.simps[of z pfn nr i]
  show ?case
  proof (cases "i < nr")
    case False
    with unf "1.prems" have "r = i" "i = nr" by auto
    then show ?thesis by auto
  next
    case True
    show ?thesis
    proof (cases "pfn_valid_within z (pfn + i)")
      case v: True
      with True unf "1.prems" have "r = i" by simp
      with v True show ?thesis by (auto simp: pfn_valid_within_def)
    next
      case False
      with True unf "1.prems" have r: "first_valid_scan z pfn nr (i + 1) = r" by simp
      from True have "i + 1 \<le> nr" by simp
      from "1.IH"[OF True False this r]
      have ih: "i + 1 \<le> r" "r \<le> nr" "r < nr \<longrightarrow> pfn_valid z (pfn + r)"
          "\<forall>j. i + 1 \<le> j \<and> j < r \<longrightarrow> \<not> pfn_valid z (pfn + j)" by simp_all
      have "\<not> pfn_valid z (pfn + j)" if "i \<le> j" "j < r" for j
      proof (cases "j = i")
        case True with False show ?thesis by (simp add: pfn_valid_within_def)
      next
        case False with that ih(4) show ?thesis by auto
      qed
      with ih show ?thesis by auto
    qed
  qed
qed

lemma first_valid_scan_0:
  "first_valid_scan z pfn nr 0 \<le> nr"
  "first_valid_scan z pfn nr 0 < nr \<Longrightarrow> pfn_valid z (pfn + first_valid_scan z pfn nr 0)"
  "j < first_valid_scan z pfn nr 0 \<Longrightarrow> \<not> pfn_valid z (pfn + j)"
  using first_valid_scan_spec[of 0 nr z pfn "first_valid_scan z pfn nr 0"] by simp_all

lemma first_valid_page_None:
  "first_valid_page z pfn nr = None \<longleftrightarrow> (\<forall>f. pfn \<le> f \<and> f < pfn + nr \<longrightarrow> \<not> pfn_valid z f)"
proof
  assume "first_valid_page z pfn nr = None"
  then have r: "first_valid_scan z pfn nr 0 = nr"
    by (simp add: first_valid_page_def Let_def split: if_splits)
  show "\<forall>f. pfn \<le> f \<and> f < pfn + nr \<longrightarrow> \<not> pfn_valid z f"
  proof (intro allI impI)
    fix f assume f: "pfn \<le> f \<and> f < pfn + nr"
    then have "f - pfn < first_valid_scan z pfn nr 0" using r by auto
    then have "\<not> pfn_valid z (pfn + (f - pfn))" by (rule first_valid_scan_0(3))
    with f show "\<not> pfn_valid z f" by simp
  qed
next
  assume a: "\<forall>f. pfn \<le> f \<and> f < pfn + nr \<longrightarrow> \<not> pfn_valid z f"
  have "first_valid_scan z pfn nr 0 = nr"
  proof (rule ccontr)
    assume "first_valid_scan z pfn nr 0 \<noteq> nr"
    with first_valid_scan_0(1)[of z pfn nr] have lt: "first_valid_scan z pfn nr 0 < nr" by simp
    from first_valid_scan_0(2)[OF lt] a lt show False by simp
  qed
  then show "first_valid_page z pfn nr = None"
    by (simp add: first_valid_page_def Let_def)
qed

lemma first_valid_page_Some:
  assumes a: "first_valid_page z pfn nr = Some pg"
  shows "pfn \<le> pg" "pg < pfn + nr" "pfn_valid z pg" "\<And>f. pfn \<le> f \<Longrightarrow> f < pg \<Longrightarrow> \<not> pfn_valid z f"
proof -
  from a have pg: "first_valid_scan z pfn nr 0 \<noteq> nr" "pg = pfn + first_valid_scan z pfn nr 0"
    by (simp_all add: first_valid_page_def Let_def pfn_to_page_def split: if_splits)
  with first_valid_scan_0(1)[of z pfn nr] have lt: "first_valid_scan z pfn nr 0 < nr" by simp
  show "pfn \<le> pg" using pg by simp
  show "pg < pfn + nr" using pg lt by simp
  show "pfn_valid z pg" using first_valid_scan_0(2)[OF lt] pg by simp
  show "\<not> pfn_valid z f" if "pfn \<le> f" "f < pg" for f
  proof -
    from that pg have "f - pfn < first_valid_scan z pfn nr 0" by auto
    then have "\<not> pfn_valid z (pfn + (f - pfn))" by (rule first_valid_scan_0(3))
    with that show ?thesis by simp
  qed
qed

lemma first_valid_scan_cong:
  "pfn_valid z' = pfn_valid z \<Longrightarrow> first_valid_scan z' pfn nr i = first_valid_scan z pfn nr i"
proof (induction z pfn nr i rule: first_valid_scan.induct)
  case (1 z pfn nr i)
  have v: "pfn_valid_within z' (pfn + i) = pfn_valid_within z (pfn + i)"
    using "1.prems" by (simp add: pfn_valid_within_def)
  have u1: "first_valid_scan z' pfn nr i =
     (if i < nr then (if pfn_valid_within z' (pfn + i) then i else first_valid_scan z' pfn nr (i + 1)) else i)"
    by (rule first_valid_scan.simps)
  have u2: "first_valid_scan z pfn nr i =
     (if i < nr then (if pfn_valid_within z (pfn + i) then i else first_valid_scan z pfn nr (i + 1)) else i)"
    by (rule first_valid_scan.simps)
  show ?case
  proof (cases "i < nr \<and> \<not> pfn_valid_within z (pfn + i)")
    case True
    then have "first_valid_scan z' pfn nr (i + 1) = first_valid_scan z pfn nr (i + 1)"
      using "1.IH" "1.prems" by blast
    with True v show ?thesis unfolding u1 u2 by simp
  next
    case False
    with v show ?thesis unfolding u1 u2 by auto
  qed
qed

lemma first_valid_page_cong:
  "pfn_valid z' = pfn_valid z \<Longrightarrow> first_valid_page z' pfn nr = first_valid_page z pfn nr"
  using first_valid_scan_cong[of z' z pfn nr 0] by (simp add: first_valid_page_def)

subsection \<open>What each primitive reads and writes\<close>

lemma note_call_fields [simp]:
  "pageblock_order (note_call c z) = pageblock_order z"
  "pfn_valid (note_call c z) = pfn_valid z"
  "mem_map (note_call c z) = mem_map z"
  "pageblock_flags (note_call c z) = pageblock_flags z"
  "vm_stat (note_call c z) = vm_stat z"
  "calls (note_call c z) = calls z @ [c]"
  by (simp_all add: note_call_def)

lemma note_call_reads [simp]:
  "pageblock_nr_pages (note_call c z) = pageblock_nr_pages z"
  "get_pageblock_migratetype (note_call c z) pg = get_pageblock_migratetype z pg"
  by (simp_all add: pageblock_nr_pages_def get_pageblock_migratetype_def)

lemma note_call_first_valid [simp]:
  "first_valid_page (note_call c z) pfn nr = first_valid_page z pfn nr"
  by (rule first_valid_page_cong) simp

lemma block_extent:
  assumes "0 < (B::nat)"
  shows "(b * B \<le> f \<and> f \<le> b * B + B - 1) \<longleftrightarrow> f div B = b"
proof
  assume a: "b * B \<le> f \<and> f \<le> b * B + B - 1"
  with assms have "f < (b + 1) * B" by auto
  with a have "b \<le> f div B" "f div B < b + 1"
    using assms by (simp_all add: less_eq_div_iff_mult_less_eq div_less_iff_less_mult)
  then show "f div B = b" by simp
next
  assume "f div B = b"
  then have "b * B \<le> f" "f < b * B + B"
    using assms by (auto simp: div_times_less_eq_dividend dividend_less_div_times add.commute)
  then show "b * B \<le> f \<and> f \<le> b * B + B - 1" by auto
qed

lemma move_freepages_fields [simp]:
  "pageblock_order (fst (move_freepages z s e mt)) = pageblock_order z"
  "pfn_valid (fst (move_freepages z s e mt)) = pfn_valid z"
  "pageblock_flags (fst (move_freepages z s e mt)) = pageblock_flags z"
  "vm_stat (fst (move_freepages z s e mt)) = vm_stat z"
  "calls (fst (move_freepages z s e mt)) = calls z"
  "mem_map (fst (move_freepages z s e mt)) f =
     (if s \<le> f \<and> f \<le> e \<and> pfn_valid z f \<and> p_buddy (mem_map z f)
      then (mem_map z f)\<lparr>p_freepage_mt := mt, p_free_list := mt\<rparr> else mem_map z f)"
  by (simp_all add: move_freepages_def moved_page_def)

lemma move_freepages_block_fields [simp]:
  "pageblock_order (fst (move_freepages_block z pg mt)) = pageblock_order z"
  "pfn_valid (fst (move_freepages_block z pg mt)) = pfn_valid z"
  "pageblock_flags (fst (move_freepages_block z pg mt)) = pageblock_flags z"
  "vm_stat (fst (move_freepages_block z pg mt)) = vm_stat z"
  "calls (fst (move_freepages_block z pg mt)) = calls z"
  by (simp_all add: move_freepages_block_def Let_def)

lemma move_freepages_block_mem_map [simp]:
  "mem_map (fst (move_freepages_block z pg mt)) f =
     (if f div pageblock_nr_pages z = pg div pageblock_nr_pages z \<and> pfn_valid z f \<and> p_buddy (mem_map z f)
      then (mem_map z f)\<lparr>p_freepage_mt := mt, p_free_list := mt\<rparr> else mem_map z f)"
proof -
  define B where "B = pageblock_nr_pages z"
  define b where "b = pg div B"
  have B: "0 < B" by (simp add: B_def pageblock_nr_pages_pos)
  show ?thesis
  proof (cases "f div B = b")
    case True
    with block_extent[OF B, of b f] have "b * B \<le> f" "f \<le> b * B + B - 1" by simp_all
    with True show ?thesis
      by (simp add: move_freepages_block_def Let_def flip: B_def b_def)
  next
    case False
    with block_extent[OF B, of b f] have "\<not> (b * B \<le> f \<and> f \<le> b * B + B - 1)" by simp
    with False show ?thesis
      by (auto simp add: move_freepages_block_def Let_def simp flip: B_def b_def)
  qed
qed

lemma unset_fields [simp]:
  "pageblock_order (unset_migratetype_isolate_cma z pg mt) = pageblock_order z"
  "pfn_valid (unset_migratetype_isolate_cma z pg mt) = pfn_valid z"
  "calls (unset_migratetype_isolate_cma z pg mt) = calls z"
  "pageblock_flags (unset_migratetype_isolate_cma z pg mt) b =
     (if pageblock_flags z (pg div pageblock_nr_pages z) = MIGRATE_ISOLATE
         \<and> b = pg div pageblock_nr_pages z
      then mt else pageblock_flags z b)"
  "mem_map (unset_migratetype_isolate_cma z pg mt) f =
     (if pageblock_flags z (pg div pageblock_nr_pages z) = MIGRATE_ISOLATE
         \<and> f div pageblock_nr_pages z = pg div pageblock_nr_pages z
         \<and> pfn_valid z f \<and> p_buddy (mem_map z f)
      then (mem_map z f)\<lparr>p_freepage_mt := mt, p_free_list := mt\<rparr> else mem_map z f)"
  by (simp_all add: unset_migratetype_isolate_cma_def get_pageblock_migratetype_def
      set_pageblock_migratetype_def mod_zone_freepage_state_def pageblock_nr_pages_def
      Let_def split_beta)

lemma unset_nr_pages [simp]:
  "pageblock_nr_pages (unset_migratetype_isolate_cma z pg mt) = pageblock_nr_pages z"
  by (simp add: pageblock_nr_pages_def)

lemma unset_noop:
  "get_pageblock_migratetype z pg \<noteq> MIGRATE_ISOLATE \<Longrightarrow> unset_migratetype_isolate_cma z pg mt = z"
  by (simp add: unset_migratetype_isolate_cma_def)

lemma set_isolate_fail:
  "hup z pg skip \<Longrightarrow> set_migratetype_isolate_cma hup z pg skip = (- EBUSY, z)"
  by (simp add: set_migratetype_isolate_cma_def)

lemma set_isolate_ret:
  "fst (set_migratetype_isolate_cma hup z pg skip) = (if hup z pg skip then - EBUSY else 0)"
  by (simp add: set_migratetype_isolate_cma_def Let_def split_beta)

lemma set_isolate_fields [simp]:
  "pageblock_order (snd (set_migratetype_isolate_cma hup z pg skip)) = pageblock_order z"
  "pfn_valid (snd (set_migratetype_isolate_cma hup z pg skip)) = pfn_valid z"
  "calls (snd (set_migratetype_isolate_cma hup z pg skip)) = calls z"
  "pageblock_flags (snd (set_migratetype_isolate_cma hup z pg skip)) b =
     (if \<not> hup z pg skip \<and> b = pg div pageblock_nr_pages z
      then MIGRATE_ISOLATE else pageblock_flags z b)"
  by (simp_all add: set_migratetype_isolate_cma_def get_pageblock_migratetype_def
      set_pageblock_migratetype_def mod_zone_freepage_state_def pageblock_nr_pages_def
      Let_def split_beta)

lemma set_isolate_nr_pages [simp]:
  "pageblock_nr_pages (snd (set_migratetype_isolate_cma hup z pg skip)) = pageblock_nr_pages z"
  by (simp add: pageblock_nr_pages_def)

subsection \<open>The rollback loop\<close>

lemma isolate_undo_unfold:
  "pfn < u \<Longrightarrow> isolate_undo z pfn u mt =
     isolate_undo (unset_migratetype_isolate_cma (note_call (Call_unset_isolate pfn mt) z) pfn mt)
       (pfn + pageblock_nr_pages z) u mt"
  "\<not> pfn < u \<Longrightarrow> isolate_undo z pfn u mt = z"
  by (subst isolate_undo.simps, simp add: Let_def pfn_to_page_def)+

lemma isolate_undo_const:
  "pageblock_order (isolate_undo z pfn u mt) = pageblock_order z \<and>
   pfn_valid (isolate_undo z pfn u mt) = pfn_valid z"
proof (induction z pfn u mt rule: isolate_undo.induct)
  case (1 z pfn u mt)
  show ?case
  proof (cases "pfn < u")
    case True
    with "1.IH"[OF True refl] show ?thesis
      by (simp add: isolate_undo_unfold(1) pfn_to_page_def)
  next
    case False
    then show ?thesis by (simp add: isolate_undo_unfold(2))
  qed
qed

lemma isolate_undo_nr_pages [simp]:
  "pageblock_nr_pages (isolate_undo z pfn u mt) = pageblock_nr_pages z"
  by (simp add: pageblock_nr_pages_def isolate_undo_const)

lemma aligned_next_div:
  assumes "(B::nat) dvd pfn" "0 < B"
  shows "(pfn + B) div B = Suc (pfn div B)" "B dvd pfn + B" "pfn div B * B = pfn"
  using assms by auto



subsection \<open>The forward loop of the driver\<close>

lemma pageblock_has_valid_iff:
  "pageblock_has_valid z b \<longleftrightarrow> (\<exists>f. f div pageblock_nr_pages z = b \<and> pfn_valid z f)"
proof -
  define B where "B = pageblock_nr_pages z"
  have B: "0 < B" by (simp add: B_def pageblock_nr_pages_pos)
  have "(b * B \<le> f \<and> f < b * B + B) \<longleftrightarrow> f div B = b" for f
    using block_extent[OF B, of b f] B by auto
  then show ?thesis
    unfolding pageblock_has_valid_def first_valid_page_None B_def[symmetric] by auto
qed

lemma pageblock_has_valid_cong:
  "pfn_valid z' = pfn_valid z \<Longrightarrow> pageblock_order z' = pageblock_order z \<Longrightarrow>
   pageblock_has_valid z' b = pageblock_has_valid z b"
  by (simp add: pageblock_has_valid_iff pageblock_nr_pages_def)

lemma first_valid_page_block:
  assumes "first_valid_page z pfn (pageblock_nr_pages z) = Some pg" "pageblock_nr_pages z dvd pfn"
  shows "pg div pageblock_nr_pages z = pfn div pageblock_nr_pages z" "pfn_valid z pg" "pfn \<le> pg"
proof -
  define B where "B = pageblock_nr_pages z"
  have B: "0 < B" by (simp add: B_def pageblock_nr_pages_pos)
  from first_valid_page_Some(1,2,3)[OF assms(1)]
  have pg: "pfn \<le> pg" "pg < pfn + B" "pfn_valid z pg" by (simp_all add: B_def)
  from assms(2) have "pfn div B * B = pfn" by (simp add: B_def)
  with pg have "pfn div B * B \<le> pg \<and> pg \<le> pfn div B * B + B - 1" by auto
  with block_extent[OF B, of "pfn div B" pg] show "pg div pageblock_nr_pages z = pfn div pageblock_nr_pages z"
    by (simp add: B_def)
  show "pfn_valid z pg" "pfn \<le> pg" by fact+
qed

lemma first_valid_page_has_valid:
  assumes "pageblock_nr_pages z dvd pfn"
  shows "first_valid_page z pfn (pageblock_nr_pages z) \<noteq> None \<longleftrightarrow>
         pageblock_has_valid z (pfn div pageblock_nr_pages z)"
  using assms by (simp add: pageblock_has_valid_def)

lemma isolate_scan_unfold:
  "\<not> pfn < e \<Longrightarrow> isolate_scan hup z pfn e skip = (z, None)"
  "pfn < e \<Longrightarrow> first_valid_page z pfn (pageblock_nr_pages z) = None \<Longrightarrow>
     isolate_scan hup z pfn e skip = isolate_scan hup z (pfn + pageblock_nr_pages z) e skip"
  "pfn < e \<Longrightarrow> first_valid_page z pfn (pageblock_nr_pages z) = Some pg \<Longrightarrow>
     hup (note_call (Call_set_isolate pg skip) z) pg skip \<Longrightarrow>
     isolate_scan hup z pfn e skip = (note_call (Call_set_isolate pg skip) z, Some pfn)"
  "pfn < e \<Longrightarrow> first_valid_page z pfn (pageblock_nr_pages z) = Some pg \<Longrightarrow>
     \<not> hup (note_call (Call_set_isolate pg skip) z) pg skip \<Longrightarrow>
     isolate_scan hup z pfn e skip =
       isolate_scan hup (snd (set_migratetype_isolate_cma hup (note_call (Call_set_isolate pg skip) z) pg skip))
         (pfn + pageblock_nr_pages z) e skip"
proof -
  show "\<not> pfn < e \<Longrightarrow> isolate_scan hup z pfn e skip = (z, None)"
    by (subst isolate_scan.simps) simp
  show "pfn < e \<Longrightarrow> first_valid_page z pfn (pageblock_nr_pages z) = None \<Longrightarrow>
     isolate_scan hup z pfn e skip = isolate_scan hup z (pfn + pageblock_nr_pages z) e skip"
    by (subst isolate_scan.simps) simp
  show "pfn < e \<Longrightarrow> first_valid_page z pfn (pageblock_nr_pages z) = Some pg \<Longrightarrow>
     hup (note_call (Call_set_isolate pg skip) z) pg skip \<Longrightarrow>
     isolate_scan hup z pfn e skip = (note_call (Call_set_isolate pg skip) z, Some pfn)"
    by (subst isolate_scan.simps) (simp add: set_isolate_fail EBUSY_def)
  show "pfn < e \<Longrightarrow> first_valid_page z pfn (pageblock_nr_pages z) = Some pg \<Longrightarrow>
     \<not> hup (note_call (Call_set_isolate pg skip) z) pg skip \<Longrightarrow>
     isolate_scan hup z pfn e skip =
       isolate_scan hup (snd (set_migratetype_isolate_cma hup (note_call (Call_set_isolate pg skip) z) pg skip))
         (pfn + pageblock_nr_pages z) e skip"
  proof -
    assume a: "pfn < e" "first_valid_page z pfn (pageblock_nr_pages z) = Some pg"
       "\<not> hup (note_call (Call_set_isolate pg skip) z) pg skip"
    obtain ret z' where s: "set_migratetype_isolate_cma hup (note_call (Call_set_isolate pg skip) z) pg skip = (ret, z')"
      by (cases "set_migratetype_isolate_cma hup (note_call (Call_set_isolate pg skip) z) pg skip")
    with set_isolate_ret[of hup "note_call (Call_set_isolate pg skip) z" pg skip] a(3)
    have "ret = 0" by simp
    moreover from s set_isolate_nr_pages[of hup "note_call (Call_set_isolate pg skip) z" pg skip]
    have "pageblock_nr_pages z' = pageblock_nr_pages z" by simp
    ultimately show ?thesis using a s
      by (subst isolate_scan.simps) simp
  qed
qed

lemma isolate_scan_induct [consumes 1, case_names Done Absent Fail Step]:
  assumes al: "pageblock_nr_pages z dvd pfn"
    and fin: "\<And>z pfn. pageblock_nr_pages z dvd pfn \<Longrightarrow> \<not> pfn < e \<Longrightarrow> P z pfn (z, None)"
    and absent: "\<And>z pfn. pageblock_nr_pages z dvd pfn \<Longrightarrow> pfn < e \<Longrightarrow>
        \<not> pageblock_has_valid z (pfn div pageblock_nr_pages z) \<Longrightarrow>
        P z (pfn + pageblock_nr_pages z) (isolate_scan hup z (pfn + pageblock_nr_pages z) e skip) \<Longrightarrow>
        P z pfn (isolate_scan hup z (pfn + pageblock_nr_pages z) e skip)"
    and fail: "\<And>z pfn pg. pageblock_nr_pages z dvd pfn \<Longrightarrow> pfn < e \<Longrightarrow>
        first_valid_page z pfn (pageblock_nr_pages z) = Some pg \<Longrightarrow>
        hup (note_call (Call_set_isolate pg skip) z) pg skip \<Longrightarrow>
        P z pfn (note_call (Call_set_isolate pg skip) z, Some pfn)"
    and step: "\<And>z pfn pg z'. pageblock_nr_pages z dvd pfn \<Longrightarrow> pfn < e \<Longrightarrow>
        first_valid_page z pfn (pageblock_nr_pages z) = Some pg \<Longrightarrow>
        \<not> hup (note_call (Call_set_isolate pg skip) z) pg skip \<Longrightarrow>
        z' = snd (set_migratetype_isolate_cma hup (note_call (Call_set_isolate pg skip) z) pg skip) \<Longrightarrow>
        P z' (pfn + pageblock_nr_pages z) (isolate_scan hup z' (pfn + pageblock_nr_pages z) e skip) \<Longrightarrow>
        P z pfn (isolate_scan hup z' (pfn + pageblock_nr_pages z) e skip)"
  shows "P z pfn (isolate_scan hup z pfn e skip)"
  using al
proof (induction "e - pfn" arbitrary: z pfn rule: less_induct)
  case less
  define B where "B = pageblock_nr_pages z"
  have B: "0 < B" by (simp add: B_def pageblock_nr_pages_pos)
  have al: "B dvd pfn" using less.prems by (simp add: B_def)
  show ?case
  proof (cases "pfn < e")
    case False
    with fin[OF less.prems] show ?thesis by (simp add: isolate_scan_unfold(1))
  next
    case True
    then have dec: "e - (pfn + B) < e - pfn" using B by auto
    show ?thesis
    proof (cases "first_valid_page z pfn B")
      case None
      then have nv: "\<not> pageblock_has_valid z (pfn div B)"
        using first_valid_page_has_valid[OF less.prems] by (simp add: B_def)
      have "P z (pfn + B) (isolate_scan hup z (pfn + B) e skip)"
        using less.hyps[OF dec] al by (simp add: B_def)
      with absent[OF less.prems True] nv None show ?thesis
        by (simp add: isolate_scan_unfold(2)[OF True] B_def)
    next
      case (Some pg)
      show ?thesis
      proof (cases "hup (note_call (Call_set_isolate pg skip) z) pg skip")
        case h: True
        with fail[OF less.prems True] Some show ?thesis
          by (simp add: isolate_scan_unfold(3)[OF True] B_def)
      next
        case h: False
        define z' where "z' = snd (set_migratetype_isolate_cma hup (note_call (Call_set_isolate pg skip) z) pg skip)"
        have nr: "pageblock_nr_pages z' = B" by (simp add: z'_def B_def)
        have "P z' (pfn + B) (isolate_scan hup z' (pfn + B) e skip)"
          using less.hyps[OF dec, of z'] al nr by simp
        with step[OF less.prems True _ h z'_def] Some h show ?thesis
          by (simp add: isolate_scan_unfold(4)[OF True] B_def z'_def)
      qed
    qed
  qed
qed

lemma isolate_scan_spec:
  assumes "pageblock_nr_pages z dvd pfn"
  shows "isolate_scan_post e skip z pfn (isolate_scan hup z pfn e skip)"
  using assms
proof (induction rule: isolate_scan_induct[where e = e and hup = hup and skip = skip])
  case (Done z pfn)
  define B where "B = pageblock_nr_pages z"
  have B: "0 < B" by (simp add: B_def pageblock_nr_pages_pos)
  have "\<not> (pfn div B \<le> b \<and> b * B < e)" for b
  proof
    assume a: "pfn div B \<le> b \<and> b * B < e"
    then have "pfn div B * B \<le> b * B" by simp
    moreover have "pfn div B * B = pfn" using Done(1) by (simp add: B_def)
    ultimately show False using a Done(2) by simp
  qed
  then show ?case
    by (auto simp: isolate_scan_post_def scan_limit_def B_def)
next
  case (Absent z pfn)
  define B where "B = pageblock_nr_pages z"
  have B: "0 < B" by (simp add: B_def pageblock_nr_pages_pos)
  have al: "B dvd pfn" using Absent(1) by (simp add: B_def)
  note nx = aligned_next_div[OF al B]
  obtain z1 r where res: "isolate_scan hup z (pfn + B) e skip = (z1, r)"
    by (cases "isolate_scan hup z (pfn + B) e skip")
  from Absent(4) have post: "isolate_scan_post e skip z (pfn + B) (z1, r)"
    unfolding B_def[symmetric] res .
  from post have ih:
    "pageblock_order z1 = pageblock_order z" "pfn_valid z1 = pfn_valid z"
    "\<And>u. r = Some u \<Longrightarrow> pfn + B \<le> u \<and> u < e \<and> B dvd u \<and> pageblock_has_valid z (u div B)"
    "\<And>b. pageblock_flags z1 b =
               (if Suc (pfn div B) \<le> b \<and> b * B < scan_limit r e \<and> pageblock_has_valid z b
                then MIGRATE_ISOLATE else pageblock_flags z b)"
    "\<exists>cs. calls z1 = calls z @ cs \<and>
              (\<forall>c \<in> set cs. \<exists>pg. c = Call_set_isolate pg skip \<and> pfn_valid z pg \<and> pfn + B \<le> pg)"
    unfolding isolate_scan_post_def B_def[symmetric] nx(1) by simp_all
  have fl: "pageblock_flags z1 b =
               (if pfn div B \<le> b \<and> b * B < scan_limit r e \<and> pageblock_has_valid z b
                then MIGRATE_ISOLATE else pageblock_flags z b)" for b
  proof (cases "b = pfn div B")
    case True
    with Absent(3) show ?thesis unfolding ih(4) by (simp add: B_def)
  next
    case False
    then have "Suc (pfn div B) \<le> b \<longleftrightarrow> pfn div B \<le> b" by auto
    then show ?thesis unfolding ih(4) by simp
  qed
  from ih(5) obtain cs where cs: "calls z1 = calls z @ cs"
      "\<forall>c \<in> set cs. \<exists>pg. c = Call_set_isolate pg skip \<and> pfn_valid z pg \<and> pfn + B \<le> pg" by blast
  from cs(2) have cs': "\<forall>c \<in> set cs. \<exists>pg. c = Call_set_isolate pg skip \<and> pfn_valid z pg \<and> pfn \<le> pg"
    by fastforce
  have u: "\<And>u. r = Some u \<Longrightarrow> pfn \<le> u \<and> u < e \<and> B dvd u \<and> pageblock_has_valid z (u div B)"
    using ih(3) by fastforce
  show ?case
    unfolding isolate_scan_post_def B_def[symmetric] res
    using ih(1,2) u fl cs(1) cs' by auto
next
  case (Fail z pfn pg)
  define B where "B = pageblock_nr_pages z"
  have B: "0 < B" by (simp add: B_def pageblock_nr_pages_pos)
  have al: "B dvd pfn" using Fail(1) by (simp add: B_def)
  note nx = aligned_next_div[OF al B]
  note pg = first_valid_page_block[OF Fail(3) Fail(1)]
  have hv: "pageblock_has_valid z (pfn div B)"
    using first_valid_page_has_valid[OF Fail(1)] Fail(3) by (simp add: B_def)
  have "\<not> (pfn div B \<le> b \<and> b * B < pfn)" for b
  proof
    assume a: "pfn div B \<le> b \<and> b * B < pfn"
    then have "pfn div B * B \<le> b * B" by simp
    with nx(3) a show False by simp
  qed
  then show ?case
    unfolding isolate_scan_post_def B_def[symmetric]
    using Fail(2) al hv pg(2,3) by (auto simp: scan_limit_def)
next
  case (Step z pfn pg z')
  define B where "B = pageblock_nr_pages z"
  have B: "0 < B" by (simp add: B_def pageblock_nr_pages_pos)
  have al: "B dvd pfn" using Step(1) by (simp add: B_def)
  note nx = aligned_next_div[OF al B]
  note pg = first_valid_page_block[OF Step(3) Step(1)]
  have hv: "pageblock_has_valid z (pfn div B)"
    using first_valid_page_has_valid[OF Step(1)] Step(3) by (simp add: B_def)
  have z': "pageblock_order z' = pageblock_order z" "pfn_valid z' = pfn_valid z"
     "pageblock_nr_pages z' = B"
     "\<And>b. pageblock_flags z' b = (if b = pfn div B then MIGRATE_ISOLATE else pageblock_flags z b)"
     "calls z' = calls z @ [Call_set_isolate pg skip]"
    using Step(4) pg(1) by (simp_all add: Step(5) B_def)
  have hv': "pageblock_has_valid z' b = pageblock_has_valid z b" for b
    by (rule pageblock_has_valid_cong) (simp_all add: z')
  obtain z1 r where res: "isolate_scan hup z' (pfn + B) e skip = (z1, r)"
    by (cases "isolate_scan hup z' (pfn + B) e skip")
  from Step(6) have post: "isolate_scan_post e skip z' (pfn + B) (z1, r)"
    unfolding B_def[symmetric] res .
  from post have ih:
    "pageblock_order z1 = pageblock_order z" "pfn_valid z1 = pfn_valid z"
    "\<And>u. r = Some u \<Longrightarrow> pfn + B \<le> u \<and> u < e \<and> B dvd u \<and> pageblock_has_valid z (u div B)"
    "\<And>b. pageblock_flags z1 b =
               (if Suc (pfn div B) \<le> b \<and> b * B < scan_limit r e \<and> pageblock_has_valid z b
                then MIGRATE_ISOLATE else pageblock_flags z' b)"
    "\<exists>cs. calls z1 = calls z' @ cs \<and>
              (\<forall>c \<in> set cs. \<exists>pg. c = Call_set_isolate pg skip \<and> pfn_valid z pg \<and> pfn + B \<le> pg)"
    unfolding isolate_scan_post_def z'(1,2,3) hv' nx(1) by simp_all
  have lim: "pfn < scan_limit r e"
    using Step(2) ih(3) B by (cases r) (auto simp: scan_limit_def)
  have fl: "pageblock_flags z1 b =
               (if pfn div B \<le> b \<and> b * B < scan_limit r e \<and> pageblock_has_valid z b
                then MIGRATE_ISOLATE else pageblock_flags z b)" for b
  proof (cases "b = pfn div B")
    case True
    with hv lim nx(3) show ?thesis unfolding ih(4) z'(4) by simp
  next
    case False
    then have "Suc (pfn div B) \<le> b \<longleftrightarrow> pfn div B \<le> b" by auto
    with False show ?thesis unfolding ih(4) z'(4) by simp
  qed
  from ih(5) obtain cs where cs: "calls z1 = calls z' @ cs"
      "\<forall>c \<in> set cs. \<exists>pg. c = Call_set_isolate pg skip \<and> pfn_valid z pg \<and> pfn + B \<le> pg" by blast
  from cs(2) have cs': "\<forall>c \<in> set (Call_set_isolate pg skip # cs). \<exists>pg. c = Call_set_isolate pg skip \<and> pfn_valid z pg \<and> pfn \<le> pg"
    using pg(2,3) by fastforce
  have c1: "calls z1 = calls z @ (Call_set_isolate pg skip # cs)" using cs(1) z'(5) by simp
  have u: "\<And>u. r = Some u \<Longrightarrow> pfn \<le> u \<and> u < e \<and> B dvd u \<and> pageblock_has_valid z (u div B)"
    using ih(3) by fastforce
  show ?case
    unfolding isolate_scan_post_def B_def[symmetric] res
    using ih(1,2) u fl c1 cs' by blast
qed

subsection \<open>The entry points of the driver\<close>

lemma start_isolate_unaligned:
  "\<not> (pageblock_nr_pages z dvd start_pfn \<and> pageblock_nr_pages z dvd end_pfn) \<Longrightarrow>
   start_isolate_page_range_cma hup z start_pfn end_pfn mt skip = Inl (BUG, z)"
  unfolding start_isolate_page_range_cma_def aligned_iff by auto

lemma start_isolate_aligned:
  "pageblock_nr_pages z dvd start_pfn \<Longrightarrow> pageblock_nr_pages z dvd end_pfn \<Longrightarrow>
   start_isolate_page_range_cma hup z start_pfn end_pfn mt skip =
     (case isolate_scan hup z start_pfn end_pfn skip of
        (z1, None) \<Rightarrow> Inr (0, z1)
      | (z1, Some undo_pfn) \<Rightarrow> Inr (- EBUSY, isolate_undo z1 start_pfn undo_pfn mt))"
  unfolding start_isolate_page_range_cma_def aligned_iff by simp

lemma undo_isolate_unaligned:
  "\<not> (pageblock_nr_pages z dvd start_pfn \<and> pageblock_nr_pages z dvd end_pfn) \<Longrightarrow>
   undo_isolate_page_range_cma z start_pfn end_pfn mt = Inl (BUG, z)"
  unfolding undo_isolate_page_range_cma_def aligned_iff by auto

lemma undo_isolate_aligned:
  "pageblock_nr_pages z dvd start_pfn \<Longrightarrow> pageblock_nr_pages z dvd end_pfn \<Longrightarrow>
   undo_isolate_page_range_cma z start_pfn end_pfn mt = Inr (0, undo_scan z start_pfn end_pfn mt)"
  unfolding undo_isolate_page_range_cma_def aligned_iff by simp

lemma aligned_block_less:
  assumes "(B::nat) dvd u" "0 < B"
  shows "b * B < u \<longleftrightarrow> b < u div B"
proof -
  from assms obtain n where "u = n * B" by (auto simp: dvd_def mult.commute)
  with assms(2) show ?thesis by simp
qed


subsection \<open>The loop of the undo\<close>

lemma undo_scan_unfold:
  "\<not> pfn < e \<Longrightarrow> undo_scan z pfn e mt = z"
  "pfn < e \<Longrightarrow> first_valid_page z pfn (pageblock_nr_pages z) = None \<Longrightarrow>
     undo_scan z pfn e mt = undo_scan z (pfn + pageblock_nr_pages z) e mt"
  "pfn < e \<Longrightarrow> first_valid_page z pfn (pageblock_nr_pages z) = Some pg \<Longrightarrow>
     get_pageblock_migratetype z pg \<noteq> MIGRATE_ISOLATE \<Longrightarrow>
     undo_scan z pfn e mt = undo_scan z (pfn + pageblock_nr_pages z) e mt"
  "pfn < e \<Longrightarrow> first_valid_page z pfn (pageblock_nr_pages z) = Some pg \<Longrightarrow>
     get_pageblock_migratetype z pg = MIGRATE_ISOLATE \<Longrightarrow>
     undo_scan z pfn e mt =
       undo_scan (unset_migratetype_isolate_cma (note_call (Call_unset_isolate pg mt) z) pg mt)
         (pfn + pageblock_nr_pages z) e mt"
  by (subst undo_scan.simps, simp add: Let_def)+

lemma undo_scan_induct [consumes 1, case_names Done Skip Step]:
  assumes al: "pageblock_nr_pages z dvd pfn"
    and fin: "\<And>z pfn. pageblock_nr_pages z dvd pfn \<Longrightarrow> \<not> pfn < e \<Longrightarrow> P z pfn z"
    and skip: "\<And>z pfn. pageblock_nr_pages z dvd pfn \<Longrightarrow> pfn < e \<Longrightarrow>
        \<not> (pageblock_has_valid z (pfn div pageblock_nr_pages z) \<and>
           pageblock_flags z (pfn div pageblock_nr_pages z) = MIGRATE_ISOLATE) \<Longrightarrow>
        P z (pfn + pageblock_nr_pages z) (undo_scan z (pfn + pageblock_nr_pages z) e mt) \<Longrightarrow>
        P z pfn (undo_scan z (pfn + pageblock_nr_pages z) e mt)"
    and step: "\<And>z pfn pg z'. pageblock_nr_pages z dvd pfn \<Longrightarrow> pfn < e \<Longrightarrow>
        first_valid_page z pfn (pageblock_nr_pages z) = Some pg \<Longrightarrow>
        pageblock_flags z (pfn div pageblock_nr_pages z) = MIGRATE_ISOLATE \<Longrightarrow>
        z' = unset_migratetype_isolate_cma (note_call (Call_unset_isolate pg mt) z) pg mt \<Longrightarrow>
        P z' (pfn + pageblock_nr_pages z) (undo_scan z' (pfn + pageblock_nr_pages z) e mt) \<Longrightarrow>
        P z pfn (undo_scan z' (pfn + pageblock_nr_pages z) e mt)"
  shows "P z pfn (undo_scan z pfn e mt)"
  using al
proof (induction "e - pfn" arbitrary: z pfn rule: less_induct)
  case less
  define B where "B = pageblock_nr_pages z"
  have B: "0 < B" by (simp add: B_def pageblock_nr_pages_pos)
  have al: "B dvd pfn" using less.prems by (simp add: B_def)
  show ?case
  proof (cases "pfn < e")
    case False
    with fin[OF less.prems] show ?thesis by (simp add: undo_scan_unfold(1))
  next
    case True
    then have dec: "e - (pfn + B) < e - pfn" using B by auto
    have ih: "P z (pfn + B) (undo_scan z (pfn + B) e mt)"
      using less.hyps[OF dec] al by (simp add: B_def)
    show ?thesis
    proof (cases "first_valid_page z pfn B")
      case None
      then have nv: "\<not> pageblock_has_valid z (pfn div B)"
        using first_valid_page_has_valid[OF less.prems] by (simp add: B_def)
      with skip[OF less.prems True] ih None show ?thesis
        by (simp add: undo_scan_unfold(2)[OF True] B_def)
    next
      case (Some pg)
      note pg = first_valid_page_block[OF Some[unfolded B_def] less.prems]
      have lab: "get_pageblock_migratetype z pg = pageblock_flags z (pfn div B)"
        using pg(1) by (simp add: get_pageblock_migratetype_def B_def)
      show ?thesis
      proof (cases "pageblock_flags z (pfn div B) = MIGRATE_ISOLATE")
        case False
        with skip[OF less.prems True] ih Some lab show ?thesis
          by (simp add: undo_scan_unfold(3)[OF True] B_def)
      next
        case iso: True
        define z' where "z' = unset_migratetype_isolate_cma (note_call (Call_unset_isolate pg mt) z) pg mt"
        have nr: "pageblock_nr_pages z' = B" by (simp add: z'_def B_def)
        have "P z' (pfn + B) (undo_scan z' (pfn + B) e mt)"
          using less.hyps[OF dec, of z'] al nr by simp
        with step[OF less.prems True _ _ z'_def] Some iso lab show ?thesis
          by (simp add: undo_scan_unfold(4)[OF True] B_def z'_def)
      qed
    qed
  qed
qed

lemma undo_scan_noop:
  assumes "pageblock_nr_pages z dvd pfn"
    and "\<And>b. pfn div pageblock_nr_pages z \<le> b \<Longrightarrow> b * pageblock_nr_pages z < e \<Longrightarrow>
           pageblock_has_valid z b \<Longrightarrow> pageblock_flags z b \<noteq> MIGRATE_ISOLATE"
  shows "undo_scan z pfn e mt = z"
  using assms
proof (induction rule: undo_scan_induct[where e = e and mt = mt])
  case (Done z pfn)
  show ?case by simp
next
  case (Skip z pfn)
  define B where "B = pageblock_nr_pages z"
  have B: "0 < B" by (simp add: B_def pageblock_nr_pages_pos)
  have al: "B dvd pfn" using Skip(1) by (simp add: B_def)
  note nx = aligned_next_div[OF al B]
  have "undo_scan z (pfn + B) e mt = z"
    unfolding B_def
  proof (rule Skip(4))
    fix b assume "(pfn + pageblock_nr_pages z) div pageblock_nr_pages z \<le> b"
      "b * pageblock_nr_pages z < e" "pageblock_has_valid z b"
    then show "pageblock_flags z b \<noteq> MIGRATE_ISOLATE"
      using Skip(5)[of b] nx(1) by (simp add: B_def)
  qed
  then show ?case by (simp add: B_def)
next
  case (Step z pfn pg z')
  define B where "B = pageblock_nr_pages z"
  have B: "0 < B" by (simp add: B_def pageblock_nr_pages_pos)
  have al: "B dvd pfn" using Step(1) by (simp add: B_def)
  note nx = aligned_next_div[OF al B]
  have "pageblock_has_valid z (pfn div B)"
    using first_valid_page_has_valid[OF Step(1)] Step(3) by (simp add: B_def)
  moreover have "pfn div B * B < e" using nx(3) Step(2) by simp
  ultimately have "pageblock_flags z (pfn div B) \<noteq> MIGRATE_ISOLATE"
    using Step(7)[of "pfn div B"] by (simp add: B_def)
  with Step(4) show ?case by (simp add: B_def)
qed

lemma undo_scan_spec:
  assumes "pageblock_nr_pages z dvd pfn"
  shows "undo_scan_post e mt z pfn (undo_scan z pfn e mt)"
  using assms
proof (induction rule: undo_scan_induct[where e = e and mt = mt])
  case (Done z pfn)
  define B where "B = pageblock_nr_pages z"
  have B: "0 < B" by (simp add: B_def pageblock_nr_pages_pos)
  have "\<not> (pfn div B \<le> b \<and> b * B < e)" for b
  proof
    assume a: "pfn div B \<le> b \<and> b * B < e"
    then have "pfn div B * B \<le> b * B" by simp
    moreover have "pfn div B * B = pfn" using Done(1) by (simp add: B_def)
    ultimately show False using a Done(2) by simp
  qed
  then show ?case
    by (auto simp: undo_scan_post_def B_def)
next
  case (Skip z pfn)
  define B where "B = pageblock_nr_pages z"
  have B: "0 < B" by (simp add: B_def pageblock_nr_pages_pos)
  have al: "B dvd pfn" using Skip(1) by (simp add: B_def)
  note nx = aligned_next_div[OF al B]
  define z1 where "z1 = undo_scan z (pfn + B) e mt"
  from Skip(4) have post: "undo_scan_post e mt z (pfn + B) z1"
    unfolding B_def[symmetric] z1_def .
  have sk: "\<not> (pageblock_has_valid z (pfn div B) \<and> pageblock_flags z (pfn div B) = MIGRATE_ISOLATE)"
    using Skip(3) by (simp add: B_def)
  from post have ih:
    "pageblock_order z1 = pageblock_order z" "pfn_valid z1 = pfn_valid z"
    "\<And>b. pageblock_flags z1 b =
            (if Suc (pfn div B) \<le> b \<and> b * B < e \<and>
                pageblock_has_valid z b \<and> pageblock_flags z b = MIGRATE_ISOLATE
             then mt else pageblock_flags z b)"
    "\<And>f. mem_map z1 f =
            (if Suc (pfn div B) \<le> f div B \<and> f div B * B < e \<and>
                pageblock_flags z (f div B) = MIGRATE_ISOLATE \<and>
                pfn_valid z f \<and> p_buddy (mem_map z f)
             then (mem_map z f)\<lparr>p_freepage_mt := mt, p_free_list := mt\<rparr> else mem_map z f)"
    unfolding undo_scan_post_def B_def[symmetric] nx(1) by simp_all
  have fl: "pageblock_flags z1 b =
            (if pfn div B \<le> b \<and> b * B < e \<and>
                pageblock_has_valid z b \<and> pageblock_flags z b = MIGRATE_ISOLATE
             then mt else pageblock_flags z b)" for b
  proof (cases "b = pfn div B")
    case True
    with sk show ?thesis unfolding ih(3) by auto
  next
    case False
    then have "Suc (pfn div B) \<le> b \<longleftrightarrow> pfn div B \<le> b" by auto
    then show ?thesis unfolding ih(3) by simp
  qed
  have mm: "mem_map z1 f =
            (if pfn div B \<le> f div B \<and> f div B * B < e \<and>
                pageblock_flags z (f div B) = MIGRATE_ISOLATE \<and>
                pfn_valid z f \<and> p_buddy (mem_map z f)
             then (mem_map z f)\<lparr>p_freepage_mt := mt, p_free_list := mt\<rparr> else mem_map z f)" for f
  proof (cases "f div B = pfn div B")
    case True
    have "pfn_valid z f \<Longrightarrow> pageblock_has_valid z (pfn div B)"
      using True by (auto simp: pageblock_has_valid_iff B_def)
    with sk True show ?thesis unfolding ih(4) by auto
  next
    case False
    then have "Suc (pfn div B) \<le> f div B \<longleftrightarrow> pfn div B \<le> f div B" by auto
    then show ?thesis unfolding ih(4) by simp
  qed
  show ?case
    unfolding undo_scan_post_def B_def[symmetric] z1_def[symmetric]
    using ih(1,2) fl mm by blast
next
  case (Step z pfn pg z')
  define B where "B = pageblock_nr_pages z"
  have B: "0 < B" by (simp add: B_def pageblock_nr_pages_pos)
  have al: "B dvd pfn" using Step(1) by (simp add: B_def)
  note nx = aligned_next_div[OF al B]
  note pg = first_valid_page_block[OF Step(3) Step(1)]
  have iso: "pageblock_flags z (pfn div B) = MIGRATE_ISOLATE" using Step(4) by (simp add: B_def)
  have hv: "pageblock_has_valid z (pfn div B)"
    using first_valid_page_has_valid[OF Step(1)] Step(3) by (simp add: B_def)
  have z': "pageblock_order z' = pageblock_order z" "pfn_valid z' = pfn_valid z"
     "pageblock_nr_pages z' = B"
     "\<And>b. pageblock_flags z' b = (if b = pfn div B then mt else pageblock_flags z b)"
     "\<And>f. mem_map z' f =
        (if f div B = pfn div B \<and> pfn_valid z f \<and> p_buddy (mem_map z f)
         then (mem_map z f)\<lparr>p_freepage_mt := mt, p_free_list := mt\<rparr> else mem_map z f)"
    using iso pg(1) by (simp_all add: Step(5) B_def)
  have bd: "p_buddy (mem_map z' f) = p_buddy (mem_map z f)" for f
    by (simp add: z'(5))
  have hv': "pageblock_has_valid z' b = pageblock_has_valid z b" for b
    by (rule pageblock_has_valid_cong) (simp_all add: z')
  define z1 where "z1 = undo_scan z' (pfn + B) e mt"
  from Step(6) have post: "undo_scan_post e mt z' (pfn + B) z1"
    unfolding B_def[symmetric] z1_def .
  from post have ih:
    "pageblock_order z1 = pageblock_order z" "pfn_valid z1 = pfn_valid z"
    "\<And>b. pageblock_flags z1 b =
            (if Suc (pfn div B) \<le> b \<and> b * B < e \<and>
                pageblock_has_valid z b \<and> pageblock_flags z' b = MIGRATE_ISOLATE
             then mt else pageblock_flags z' b)"
    "\<And>f. mem_map z1 f =
            (if Suc (pfn div B) \<le> f div B \<and> f div B * B < e \<and>
                pageblock_flags z' (f div B) = MIGRATE_ISOLATE \<and>
                pfn_valid z f \<and> p_buddy (mem_map z f)
             then (mem_map z' f)\<lparr>p_freepage_mt := mt, p_free_list := mt\<rparr> else mem_map z' f)"
    unfolding undo_scan_post_def z'(1,2,3) hv' bd nx(1) by simp_all
  have lt: "pfn div B * B < e" using nx(3) Step(2) by simp
  have fl: "pageblock_flags z1 b =
            (if pfn div B \<le> b \<and> b * B < e \<and>
                pageblock_has_valid z b \<and> pageblock_flags z b = MIGRATE_ISOLATE
             then mt else pageblock_flags z b)" for b
  proof (cases "b = pfn div B")
    case True
    with iso hv lt show ?thesis unfolding ih(3) z'(4) by simp
  next
    case False
    then have "Suc (pfn div B) \<le> b \<longleftrightarrow> pfn div B \<le> b" by auto
    with False show ?thesis unfolding ih(3) z'(4) by simp
  qed
  have mm: "mem_map z1 f =
            (if pfn div B \<le> f div B \<and> f div B * B < e \<and>
                pageblock_flags z (f div B) = MIGRATE_ISOLATE \<and>
                pfn_valid z f \<and> p_buddy (mem_map z f)
             then (mem_map z f)\<lparr>p_freepage_mt := mt, p_free_list := mt\<rparr> else mem_map z f)" for f
  proof (cases "f div B = pfn div B")
    case True
    with iso lt show ?thesis unfolding ih(4) z'(4,5) by simp
  next
    case False
    then have "Suc (pfn div B) \<le> f div B \<longleftrightarrow> pfn div B \<le> f div B" by auto
    with False show ?thesis unfolding ih(4) z'(4,5) by simp
  qed
  show ?case
    unfolding undo_scan_post_def B_def[symmetric] z1_def[symmetric]
    using ih(1,2) fl mm by blast
qed

subsection \<open>Ranges with no valid frame\<close>

lemma isolate_scan_noop:
  assumes "pageblock_nr_pages z dvd pfn"
    and "\<And>b. pfn div pageblock_nr_pages z \<le> b \<Longrightarrow> b * pageblock_nr_pages z < e \<Longrightarrow>
           \<not> pageblock_has_valid z b"
  shows "isolate_scan hup z pfn e skip = (z, None)"
  using assms
proof (induction rule: isolate_scan_induct[where e = e and hup = hup and skip = skip])
  case (Done z pfn)
  show ?case by simp
next
  case (Absent z pfn)
  define B where "B = pageblock_nr_pages z"
  have B: "0 < B" by (simp add: B_def pageblock_nr_pages_pos)
  have al: "B dvd pfn" using Absent(1) by (simp add: B_def)
  note nx = aligned_next_div[OF al B]
  have "isolate_scan hup z (pfn + B) e skip = (z, None)"
    unfolding B_def
  proof (rule Absent(4))
    fix b assume "(pfn + pageblock_nr_pages z) div pageblock_nr_pages z \<le> b"
      "b * pageblock_nr_pages z < e"
    then show "\<not> pageblock_has_valid z b"
      using Absent(5)[of b] nx(1) by (simp add: B_def)
  qed
  then show ?case by (simp add: B_def)
next
  case (Fail z pfn pg)
  define B where "B = pageblock_nr_pages z"
  have B: "0 < B" by (simp add: B_def pageblock_nr_pages_pos)
  have al: "B dvd pfn" using Fail(1) by (simp add: B_def)
  note nx = aligned_next_div[OF al B]
  have "pageblock_has_valid z (pfn div B)"
    using first_valid_page_has_valid[OF Fail(1)] Fail(3) by (simp add: B_def)
  moreover have "pfn div B * B < e" using nx(3) Fail(2) by simp
  ultimately show ?case using Fail(5)[of "pfn div B"] by (simp add: B_def)
next
  case (Step z pfn pg z')
  define B where "B = pageblock_nr_pages z"
  have B: "0 < B" by (simp add: B_def pageblock_nr_pages_pos)
  have al: "B dvd pfn" using Step(1) by (simp add: B_def)
  note nx = aligned_next_div[OF al B]
  have "pageblock_has_valid z (pfn div B)"
    using first_valid_page_has_valid[OF Step(1)] Step(3) by (simp add: B_def)
  moreover have "pfn div B * B < e" using nx(3) Step(2) by simp
  ultimately show ?case using Step(7)[of "pfn div B"] by (simp add: B_def)
qed

lemma block_in_range:
  assumes B: "0 < (B::nat)" and al: "B dvd s" "B dvd e"
    and b: "s div B \<le> b" "b * B < e" and f: "f div B = b"
  shows "s \<le> f" "f < e"
proof -
  from al obtain m n where mn: "s = m * B" "e = n * B" by (auto simp: dvd_def mult.commute)
  from b mn B have "m \<le> b" "b < n" by simp_all
  from block_extent[OF B, of b f] f have fb: "b * B \<le> f" "f < b * B + B" using B by auto
  from \<open>m \<le> b\<close> have "m * B \<le> b * B" by (rule mult_le_mono1)
  from this fb(1) have "m * B \<le> f" by (rule order_trans)
  then show "s \<le> f" by (simp add: mn)
  from \<open>b < n\<close> have "Suc b \<le> n" by simp
  then have "Suc b * B \<le> n * B" by (rule mult_le_mono1)
  moreover from fb(2) have "f < Suc b * B" by simp
  ultimately have "f < n * B" by (rule order_less_le_trans[rotated])
  then show "f < e" by (simp add: mn)
qed

lemma frame_in_range:
  assumes B: "0 < (B::nat)" and al: "B dvd s" "B dvd e" and f: "s \<le> f" "f < e"
  shows "s div B \<le> f div B" "f div B * B < e" "f div B < e div B"
proof -
  show "s div B \<le> f div B" using f(1) by (rule div_le_mono)
  have "f div B * B \<le> f" by simp
  from this f(2) show lt: "f div B * B < e" by (rule order_le_less_trans)
  then show "f div B < e div B" using aligned_block_less[OF al(2) B] by simp
qed

lemma no_valid_block:
  assumes al: "pageblock_nr_pages z dvd s" "pageblock_nr_pages z dvd e"
    and absent: "\<And>f. s \<le> f \<Longrightarrow> f < e \<Longrightarrow> \<not> pfn_valid z f"
    and b: "s div pageblock_nr_pages z \<le> b" "b * pageblock_nr_pages z < e"
  shows "\<not> pageblock_has_valid z b"
proof
  assume "pageblock_has_valid z b"
  then obtain f where f: "f div pageblock_nr_pages z = b" "pfn_valid z f"
    by (auto simp: pageblock_has_valid_iff)
  from block_in_range[OF pageblock_nr_pages_pos al b f(1)] absent f(2) show False by blast
qed

lemma test_pages_isolated_cma_absent:
  assumes "start_pfn \<le> end_pfn" "\<And>f. start_pfn \<le> f \<Longrightarrow> f < end_pfn \<Longrightarrow> \<not> pfn_valid z f"
  shows "test_pages_isolated_cma z start_pfn end_pfn skip = (- EBUSY, z, None)"
proof -
  have "first_valid_page z start_pfn (end_pfn - start_pfn) = None"
    unfolding first_valid_page_None using assms by simp
  then show ?thesis by (simp add: test_pages_isolated_cma_def Let_def)
qed

subsection \<open>Results of the driver\<close>

lemma ret_of_Some: "ret_of r = Some c \<Longrightarrow> r = Inr (c, zone_of r)"
  by (auto simp: ret_of_def zone_of_def split: sum.splits prod.splits)

lemma result_simps [simp]:
  "ret_of (Inr (c, z)) = Some c" "zone_of (Inr (c, z)) = z" "zone_of (Inl (x, z)) = z"
  "ret_of (Inl y) = None"
  by (simp_all add: ret_of_def zone_of_def)

lemma undo_scan_settles:
  assumes al: "pageblock_nr_pages z dvd s" and mt: "mt \<noteq> MIGRATE_ISOLATE"
  shows "undo_scan (undo_scan z s e mt) s e mt = undo_scan z s e mt"
proof -
  define z1 where "z1 = undo_scan z s e mt"
  from undo_scan_spec[OF al, of e mt] have post: "undo_scan_post e mt z s z1" by (simp add: z1_def)
  then have c: "pageblock_order z1 = pageblock_order z" "pfn_valid z1 = pfn_valid z"
    and fl: "\<And>b. pageblock_flags z1 b =
            (if s div pageblock_nr_pages z \<le> b \<and> b * pageblock_nr_pages z < e \<and>
                pageblock_has_valid z b \<and> pageblock_flags z b = MIGRATE_ISOLATE
             then mt else pageblock_flags z b)"
    by (simp_all add: undo_scan_post_def)
  have nr: "pageblock_nr_pages z1 = pageblock_nr_pages z" by (simp add: pageblock_nr_pages_def c)
  have "undo_scan z1 s e mt = z1"
  proof (rule undo_scan_noop)
    show "pageblock_nr_pages z1 dvd s" using al by (simp add: nr)
    fix b assume "s div pageblock_nr_pages z1 \<le> b" "b * pageblock_nr_pages z1 < e"
      "pageblock_has_valid z1 b"
    moreover have "pageblock_has_valid z1 b = pageblock_has_valid z b"
      by (rule pageblock_has_valid_cong) (simp_all add: c)
    ultimately show "pageblock_flags z1 b \<noteq> MIGRATE_ISOLATE"
      using mt by (simp add: fl nr)
  qed
  then show ?thesis by (simp add: z1_def)
qed

subsection \<open>The walk of the verifier\<close>

lemma repair_extent_fields [simp]:
  "pageblock_order (repair_extent z pg) = pageblock_order z"
  "pfn_valid (repair_extent z pg) = pfn_valid z"
  "pageblock_flags (repair_extent z pg) = pageblock_flags z"
  "vm_stat (repair_extent z pg) = vm_stat z"
  "calls (repair_extent z pg) =
     calls z @ [Call_move_freepages pg (pg + 2 ^ page_order z pg - 1) MIGRATE_ISOLATE]"
  "mem_map (repair_extent z pg) f =
     (if pg \<le> f \<and> f \<le> pg + 2 ^ page_order z pg - 1 \<and> pfn_valid z f \<and> p_buddy (mem_map z f)
      then (mem_map z f)\<lparr>p_freepage_mt := MIGRATE_ISOLATE, p_free_list := MIGRATE_ISOLATE\<rparr>
      else mem_map z f)"
  by (simp_all add: repair_extent_def)

lemma repair_extent_reads [simp]:
  "page_order (repair_extent z pg) f = page_order z f"
  "PageBuddy (repair_extent z pg) f = PageBuddy z f"
  "page_count (repair_extent z pg) f = page_count z f"
  "PageHWPoison (repair_extent z pg) f = PageHWPoison z f"
  "pfn_valid_within (repair_extent z pg) f = pfn_valid_within z f"
  by (simp_all add: page_order_def PageBuddy_def page_count_def PageHWPoison_def pfn_valid_within_def)

lemma repair_extent_head:
  "pfn_valid z pg \<Longrightarrow> PageBuddy z pg \<Longrightarrow>
   get_freepage_migratetype (repair_extent z pg) pg = MIGRATE_ISOLATE \<and>
   p_free_list (mem_map (repair_extent z pg) pg) = MIGRATE_ISOLATE"
proof -
  have "1 \<le> (2::nat) ^ page_order z pg" by simp
  then have "pg \<le> pg + 2 ^ page_order z pg - 1" by arith
  then show "pfn_valid z pg \<Longrightarrow> PageBuddy z pg \<Longrightarrow>
   get_freepage_migratetype (repair_extent z pg) pg = MIGRATE_ISOLATE \<and>
   p_free_list (mem_map (repair_extent z pg) pg) = MIGRATE_ISOLATE"
    by (simp add: get_freepage_migratetype_def PageBuddy_def)
qed

lemma walk_keeps_refl [simp]: "walk_keeps z z"
  by (simp add: walk_keeps_def)

lemma walk_keeps_trans: "walk_keeps z z1 \<Longrightarrow> walk_keeps z1 z2 \<Longrightarrow> walk_keeps z z2"
  unfolding walk_keeps_def by (intro conjI allI) simp_all

lemma walk_keeps_repair: "walk_keeps z (repair_extent z pg)"
  by (simp add: walk_keeps_def)

lemma walk_keeps_reads:
  assumes "walk_keeps z z'"
  shows "page_order z' f = page_order z f" "PageBuddy z' f = PageBuddy z f"
    "page_count z' f = page_count z f" "PageHWPoison z' f = PageHWPoison z f"
    "page_private z' f = page_private z f" "pfn_valid z' f = pfn_valid z f"
    "get_freepage_migratetype z f = MIGRATE_ISOLATE \<Longrightarrow> get_freepage_migratetype z' f = MIGRATE_ISOLATE"
    "p_free_list (mem_map z f) = MIGRATE_ISOLATE \<Longrightarrow> p_free_list (mem_map z' f) = MIGRATE_ISOLATE"
    "\<not> PageBuddy z f \<Longrightarrow> get_freepage_migratetype z' f = get_freepage_migratetype z f"
  using assms
  by (simp_all add: walk_keeps_def page_order_def PageBuddy_def page_count_def PageHWPoison_def
      page_private_def get_freepage_migratetype_def)

lemma isolated_walk_cma_done:
  "\<not> pfn < e \<Longrightarrow> isolated_walk_cma z pfn e skip = (pfn, z, None)"
  by (subst isolated_walk_cma.simps) simp

lemma isolated_walk_cma_hole:
  "pfn < e \<Longrightarrow> \<not> pfn_valid z pfn \<Longrightarrow>
     isolated_walk_cma z pfn e skip = isolated_walk_cma z (pfn + 1) e skip"
  by (subst isolated_walk_cma.simps) (simp add: pfn_valid_within_def)

lemma isolated_walk_cma_repair:
  "pfn < e \<Longrightarrow> pfn_valid z pfn \<Longrightarrow> PageBuddy z pfn \<Longrightarrow>
     get_freepage_migratetype z pfn \<noteq> MIGRATE_ISOLATE \<Longrightarrow>
     isolated_walk_cma z pfn e skip =
       isolated_walk_cma (repair_extent z pfn) (pfn + 2 ^ page_order z pfn) e skip"
  by (subst isolated_walk_cma.simps)
     (simp add: Let_def pfn_to_page_def pfn_valid_within_def repair_extent_def page_order_def)

lemma isolated_walk_cma_buddy:
  "pfn < e \<Longrightarrow> pfn_valid z pfn \<Longrightarrow> PageBuddy z pfn \<Longrightarrow>
     get_freepage_migratetype z pfn = MIGRATE_ISOLATE \<Longrightarrow>
     isolated_walk_cma z pfn e skip = isolated_walk_cma z (pfn + 2 ^ page_order z pfn) e skip"
  by (subst isolated_walk_cma.simps)
     (simp add: Let_def pfn_to_page_def pfn_valid_within_def)

lemma isolated_walk_cma_free:
  "pfn < e \<Longrightarrow> pfn_valid z pfn \<Longrightarrow> \<not> PageBuddy z pfn \<Longrightarrow>
     page_count z pfn = 0 \<and> get_freepage_migratetype z pfn = MIGRATE_ISOLATE \<Longrightarrow>
     isolated_walk_cma z pfn e skip = isolated_walk_cma z (pfn + 1) e skip"
  by (subst isolated_walk_cma.simps)
     (simp add: Let_def pfn_to_page_def pfn_valid_within_def)

lemma isolated_walk_cma_poison:
  "pfn < e \<Longrightarrow> pfn_valid z pfn \<Longrightarrow> \<not> PageBuddy z pfn \<Longrightarrow>
     \<not> (page_count z pfn = 0 \<and> get_freepage_migratetype z pfn = MIGRATE_ISOLATE) \<Longrightarrow>
     skip \<and> PageHWPoison z pfn \<Longrightarrow>
     isolated_walk_cma z pfn e skip = isolated_walk_cma z (pfn + 1) e skip"
  by (subst isolated_walk_cma.simps)
     (auto simp add: Let_def pfn_to_page_def pfn_valid_within_def)

lemma isolated_walk_cma_fail:
  "pfn < e \<Longrightarrow> pfn_valid z pfn \<Longrightarrow> \<not> PageBuddy z pfn \<Longrightarrow>
     \<not> (page_count z pfn = 0 \<and> get_freepage_migratetype z pfn = MIGRATE_ISOLATE) \<Longrightarrow>
     \<not> (skip \<and> PageHWPoison z pfn) \<Longrightarrow>
     isolated_walk_cma z pfn e skip = (pfn, z, Some pfn)"
  by (subst isolated_walk_cma.simps)
     (auto simp add: Let_def pfn_to_page_def pfn_valid_within_def)

lemma isolated_walk_cma_induct [case_names Done Hole Repair Buddy Free Poison Fail]:
  assumes fin: "\<And>z pfn. \<not> pfn < e \<Longrightarrow> P z pfn (pfn, z, None)"
    and hole: "\<And>z pfn. pfn < e \<Longrightarrow> \<not> pfn_valid z pfn \<Longrightarrow>
        P z (pfn + 1) (isolated_walk_cma z (pfn + 1) e skip) \<Longrightarrow>
        P z pfn (isolated_walk_cma z (pfn + 1) e skip)"
    and repair: "\<And>z pfn. pfn < e \<Longrightarrow> pfn_valid z pfn \<Longrightarrow> PageBuddy z pfn \<Longrightarrow>
        get_freepage_migratetype z pfn \<noteq> MIGRATE_ISOLATE \<Longrightarrow>
        P (repair_extent z pfn) (pfn + 2 ^ page_order z pfn)
          (isolated_walk_cma (repair_extent z pfn) (pfn + 2 ^ page_order z pfn) e skip) \<Longrightarrow>
        P z pfn (isolated_walk_cma (repair_extent z pfn) (pfn + 2 ^ page_order z pfn) e skip)"
    and buddy: "\<And>z pfn. pfn < e \<Longrightarrow> pfn_valid z pfn \<Longrightarrow> PageBuddy z pfn \<Longrightarrow>
        get_freepage_migratetype z pfn = MIGRATE_ISOLATE \<Longrightarrow>
        P z (pfn + 2 ^ page_order z pfn) (isolated_walk_cma z (pfn + 2 ^ page_order z pfn) e skip) \<Longrightarrow>
        P z pfn (isolated_walk_cma z (pfn + 2 ^ page_order z pfn) e skip)"
    and free: "\<And>z pfn. pfn < e \<Longrightarrow> pfn_valid z pfn \<Longrightarrow> \<not> PageBuddy z pfn \<Longrightarrow>
        page_count z pfn = 0 \<and> get_freepage_migratetype z pfn = MIGRATE_ISOLATE \<Longrightarrow>
        P z (pfn + 1) (isolated_walk_cma z (pfn + 1) e skip) \<Longrightarrow>
        P z pfn (isolated_walk_cma z (pfn + 1) e skip)"
    and poison: "\<And>z pfn. pfn < e \<Longrightarrow> pfn_valid z pfn \<Longrightarrow> \<not> PageBuddy z pfn \<Longrightarrow>
        \<not> (page_count z pfn = 0 \<and> get_freepage_migratetype z pfn = MIGRATE_ISOLATE) \<Longrightarrow>
        skip \<and> PageHWPoison z pfn \<Longrightarrow>
        P z (pfn + 1) (isolated_walk_cma z (pfn + 1) e skip) \<Longrightarrow>
        P z pfn (isolated_walk_cma z (pfn + 1) e skip)"
    and fail: "\<And>z pfn. pfn < e \<Longrightarrow> pfn_valid z pfn \<Longrightarrow> \<not> PageBuddy z pfn \<Longrightarrow>
        \<not> (page_count z pfn = 0 \<and> get_freepage_migratetype z pfn = MIGRATE_ISOLATE) \<Longrightarrow>
        \<not> (skip \<and> PageHWPoison z pfn) \<Longrightarrow>
        P z pfn (pfn, z, Some pfn)"
  shows "P z pfn (isolated_walk_cma z pfn e skip)"
proof (induction "e - pfn" arbitrary: z pfn rule: less_induct)
  case less
  show ?case
  proof (cases "pfn < e")
    case False
    with fin[OF False] show ?thesis by (simp add: isolated_walk_cma_done)
  next
    case lt: True
    have d1: "e - (pfn + 1) < e - pfn" using lt by simp
    have "1 \<le> (2::nat) ^ page_order z pfn" by simp
    then have dk: "e - (pfn + 2 ^ page_order z pfn) < e - pfn" using lt by arith
    show ?thesis
    proof (cases "pfn_valid z pfn")
      case False
      with hole[OF lt False] less.hyps[OF d1] show ?thesis
        by (simp add: isolated_walk_cma_hole[OF lt])
    next
      case v: True
      show ?thesis
      proof (cases "PageBuddy z pfn")
        case b: True
        show ?thesis
        proof (cases "get_freepage_migratetype z pfn = MIGRATE_ISOLATE")
          case True
          with buddy[OF lt v b True] less.hyps[OF dk] show ?thesis
            by (simp add: isolated_walk_cma_buddy[OF lt v b])
        next
          case False
          with repair[OF lt v b False] less.hyps[OF dk] show ?thesis
            by (simp add: isolated_walk_cma_repair[OF lt v b])
        qed
      next
        case nb: False
        show ?thesis
        proof (cases "page_count z pfn = 0 \<and> get_freepage_migratetype z pfn = MIGRATE_ISOLATE")
          case True
          with free[OF lt v nb True] less.hyps[OF d1] show ?thesis
            by (simp add: isolated_walk_cma_free[OF lt v nb])
        next
          case nf: False
          show ?thesis
          proof (cases "skip \<and> PageHWPoison z pfn")
            case True
            with poison[OF lt v nb nf True] less.hyps[OF d1] show ?thesis
              by (simp add: isolated_walk_cma_poison[OF lt v nb nf])
          next
            case False
            with fail[OF lt v nb nf False] show ?thesis
              by (simp add: isolated_walk_cma_fail[OF lt v nb nf])
          qed
        qed
      qed
    qed
  qed
qed

lemma frame_isolated_start:
  "frame_isolated z skip start' f \<Longrightarrow> start \<le> start' \<Longrightarrow> frame_isolated z skip start f"
  unfolding frame_isolated_def by fastforce

lemma frame_isolated_self:
  "page_count z f = 0 \<and> get_freepage_migratetype z f = MIGRATE_ISOLATE \<or> skip \<and> PageHWPoison z f \<Longrightarrow>
   frame_isolated z skip start f"
  unfolding frame_isolated_def by blast

lemma frame_isolated_extent:
  "pfn_valid z h \<Longrightarrow> PageBuddy z h \<Longrightarrow> get_freepage_migratetype z h = MIGRATE_ISOLATE \<Longrightarrow>
   start \<le> h \<Longrightarrow> h \<le> f \<Longrightarrow> f < h + 2 ^ page_order z h \<Longrightarrow> frame_isolated z skip start f"
  unfolding frame_isolated_def by auto

lemma isolated_walk_post_step:
  assumes post: "isolated_walk_post e skip z1 pfn1 res"
    and keeps: "walk_keeps z z1" and le: "pfn \<le> pfn1"
    and cover: "\<And>z' f. walk_keeps z1 z' \<Longrightarrow> pfn \<le> f \<Longrightarrow> f < pfn1 \<Longrightarrow> pfn_valid z' f \<Longrightarrow>
                 frame_isolated z' skip pfn f"
  shows "isolated_walk_post e skip z pfn res"
proof -
  obtain p' z' failed where res: "res = (p', z', failed)" by (cases res)
  from post have p: "walk_keeps z1 z'" "pfn1 \<le> p'" "failed = None \<longrightarrow> e \<le> p'"
    "\<forall>f. failed = Some f \<longrightarrow>
             f = p' \<and> p' < e \<and> pfn_valid z' f \<and> \<not> PageBuddy z' f \<and>
             \<not> (page_count z' f = 0 \<and> get_freepage_migratetype z' f = MIGRATE_ISOLATE) \<and>
             \<not> (skip \<and> PageHWPoison z' f)"
    "\<And>f. pfn1 \<le> f \<Longrightarrow> f < p' \<Longrightarrow> pfn_valid z' f \<Longrightarrow> frame_isolated z' skip pfn1 f"
    unfolding isolated_walk_post_def res by auto
  have k: "walk_keeps z z'" by (rule walk_keeps_trans[OF keeps p(1)])
  have a: "frame_isolated z' skip pfn f" if f: "pfn \<le> f" "f < p'" "pfn_valid z' f" for f
  proof (cases "f < pfn1")
    case True
    show ?thesis by (rule cover[OF p(1) f(1) True f(3)])
  next
    case False
    then have "pfn1 \<le> f" by simp
    from p(5)[OF this f(2,3)] le show ?thesis by (rule frame_isolated_start)
  qed
  from k p(2,3,4) a le show ?thesis
    unfolding isolated_walk_post_def res by auto
qed

lemma isolated_walk_cma_spec:
  "isolated_walk_post e skip z pfn (isolated_walk_cma z pfn e skip)"
proof (induction rule: isolated_walk_cma_induct[where e = e and skip = skip])
  case (Done z pfn)
  then show ?case by (auto simp add: isolated_walk_post_def)
next
  case (Hole z pfn)
  show ?case
  proof (rule isolated_walk_post_step[OF Hole(3)])
    fix z' f assume "walk_keeps z z'" "pfn \<le> f" "f < pfn + 1" "pfn_valid z' f"
    with Hole(2) walk_keeps_reads(6)[of z z' f] show "frame_isolated z' skip pfn f"
      by (cases "f = pfn") auto
  qed simp_all
next
  case (Repair z pfn)
  show ?case
  proof (rule isolated_walk_post_step[OF Repair(5)])
    show "walk_keeps z (repair_extent z pfn)" by (rule walk_keeps_repair)
    fix z' f assume k: "walk_keeps (repair_extent z pfn) z'" and f: "pfn \<le> f" "f < pfn + 2 ^ page_order z pfn"
    note h = repair_extent_head[OF Repair(2,3)]
    have "pfn_valid z' pfn" "PageBuddy z' pfn" "page_order z' pfn = page_order z pfn"
      "get_freepage_migratetype z' pfn = MIGRATE_ISOLATE"
      using walk_keeps_reads[OF k, of pfn] Repair(2,3) h by simp_all
    then show "frame_isolated z' skip pfn f"
      using f by (intro frame_isolated_extent[where h = pfn]) simp_all
  qed simp
next
  case (Buddy z pfn)
  show ?case
  proof (rule isolated_walk_post_step[OF Buddy(5)])
    fix z' f assume k: "walk_keeps z z'" and f: "pfn \<le> f" "f < pfn + 2 ^ page_order z pfn"
    have "pfn_valid z' pfn" "PageBuddy z' pfn" "page_order z' pfn = page_order z pfn"
      "get_freepage_migratetype z' pfn = MIGRATE_ISOLATE"
      using walk_keeps_reads[OF k, of pfn] Buddy(2,3,4) by simp_all
    then show "frame_isolated z' skip pfn f"
      using f by (intro frame_isolated_extent[where h = pfn]) simp_all
  qed simp_all
next
  case (Free z pfn)
  show ?case
  proof (rule isolated_walk_post_step[OF Free(5)])
    fix z' f assume k: "walk_keeps z z'" and f: "pfn \<le> f" "f < pfn + 1"
    then have "f = pfn" by simp
    with Free(4) walk_keeps_reads[OF k, of pfn] show "frame_isolated z' skip pfn f"
      by (intro frame_isolated_self) simp
  qed simp_all
next
  case (Poison z pfn)
  show ?case
  proof (rule isolated_walk_post_step[OF Poison(6)])
    fix z' f assume k: "walk_keeps z z'" and f: "pfn \<le> f" "f < pfn + 1"
    then have "f = pfn" by simp
    with Poison(5) walk_keeps_reads[OF k, of pfn] show "frame_isolated z' skip pfn f"
      by (intro frame_isolated_self) simp
  qed simp_all
next
  case (Fail z pfn)
  then show ?case by (auto simp add: isolated_walk_post_def)
qed

subsection \<open>The entry point of the verifier\<close>

lemma label_scan_unfold:
  "\<not> pfn < e \<Longrightarrow> label_scan z pfn e = pfn"
  "pfn < e \<Longrightarrow> first_valid_page z pfn (pageblock_nr_pages z) = None \<Longrightarrow>
     label_scan z pfn e = label_scan z (pfn + pageblock_nr_pages z) e"
  "pfn < e \<Longrightarrow> first_valid_page z pfn (pageblock_nr_pages z) = Some pg \<Longrightarrow>
     get_pageblock_migratetype z pg \<noteq> MIGRATE_ISOLATE \<Longrightarrow> label_scan z pfn e = pfn"
  "pfn < e \<Longrightarrow> first_valid_page z pfn (pageblock_nr_pages z) = Some pg \<Longrightarrow>
     get_pageblock_migratetype z pg = MIGRATE_ISOLATE \<Longrightarrow>
     label_scan z pfn e = label_scan z (pfn + pageblock_nr_pages z) e"
  by (subst label_scan.simps, simp)+

lemma label_scan_stops:
  assumes "pageblock_nr_pages z dvd pfn"
  shows "label_scan z pfn e < e \<longleftrightarrow>
     (\<exists>b. pfn div pageblock_nr_pages z \<le> b \<and> b * pageblock_nr_pages z < e \<and>
          pageblock_has_valid z b \<and> pageblock_flags z b \<noteq> MIGRATE_ISOLATE)"
  using assms
proof (induction "e - pfn" arbitrary: pfn rule: less_induct)
  case less
  define B where "B = pageblock_nr_pages z"
  have B: "0 < B" by (simp add: B_def pageblock_nr_pages_pos)
  have al: "B dvd pfn" using less.prems by (simp add: B_def)
  note nx = aligned_next_div[OF al B]
  show ?case
  proof (cases "pfn < e")
    case False
    have "\<not> (pfn div B \<le> b \<and> b * B < e)" for b
    proof
      assume a: "pfn div B \<le> b \<and> b * B < e"
      then have "pfn div B * B \<le> b * B" by simp
      with nx(3) a False show False by simp
    qed
    with False show ?thesis by (auto simp: label_scan_unfold(1) B_def)
  next
    case lt: True
    then have dec: "e - (pfn + B) < e - pfn" using B by auto
    have ih: "label_scan z (pfn + B) e < e \<longleftrightarrow>
       (\<exists>b. Suc (pfn div B) \<le> b \<and> b * B < e \<and> pageblock_has_valid z b \<and>
            pageblock_flags z b \<noteq> MIGRATE_ISOLATE)"
      using less.hyps[OF dec] nx(1,2) by (simp add: B_def)
    have here: "pfn div B * B < e" using nx(3) lt by simp
    have split: "(\<exists>b. pfn div B \<le> b \<and> b * B < e \<and> pageblock_has_valid z b \<and>
            pageblock_flags z b \<noteq> MIGRATE_ISOLATE) \<longleftrightarrow>
         (pageblock_has_valid z (pfn div B) \<and> pageblock_flags z (pfn div B) \<noteq> MIGRATE_ISOLATE) \<or>
         (\<exists>b. Suc (pfn div B) \<le> b \<and> b * B < e \<and> pageblock_has_valid z b \<and>
            pageblock_flags z b \<noteq> MIGRATE_ISOLATE)"
      (is "?L \<longleftrightarrow> ?H \<or> ?R")
    proof
      assume ?L
      then obtain b where b: "pfn div B \<le> b" "b * B < e" "pageblock_has_valid z b"
        "pageblock_flags z b \<noteq> MIGRATE_ISOLATE" by blast
      show "?H \<or> ?R"
      proof (cases "b = pfn div B")
        case True with b show ?thesis by simp
      next
        case False
        with b(1) have "Suc (pfn div B) \<le> b" by simp
        with b show ?thesis by blast
      qed
    next
      assume "?H \<or> ?R"
      then show ?L
      proof
        assume ?H with here show ?L by blast
      next
        assume ?R
        then obtain b where "Suc (pfn div B) \<le> b" "b * B < e" "pageblock_has_valid z b"
          "pageblock_flags z b \<noteq> MIGRATE_ISOLATE" by blast
        then have "pfn div B \<le> b \<and> b * B < e \<and> pageblock_has_valid z b \<and>
          pageblock_flags z b \<noteq> MIGRATE_ISOLATE" by simp
        then show ?L by blast
      qed
    qed
    show ?thesis
    proof (cases "first_valid_page z pfn B")
      case None
      then have nv: "\<not> pageblock_has_valid z (pfn div B)"
        using first_valid_page_has_valid[OF less.prems] by (simp add: B_def)
      have "label_scan z pfn e = label_scan z (pfn + B) e"
        using label_scan_unfold(2)[OF lt] None by (simp add: B_def)
      with ih nv split show ?thesis unfolding B_def[symmetric] by simp
    next
      case (Some pg)
      note pg = first_valid_page_block[OF Some[unfolded B_def] less.prems]
      have hv: "pageblock_has_valid z (pfn div B)"
        using first_valid_page_has_valid[OF less.prems] Some by (simp add: B_def)
      have lab: "get_pageblock_migratetype z pg = pageblock_flags z (pfn div B)"
        using pg(1) by (simp add: get_pageblock_migratetype_def B_def)
      show ?thesis
      proof (cases "pageblock_flags z (pfn div B) = MIGRATE_ISOLATE")
        case True
        have "label_scan z pfn e = label_scan z (pfn + B) e"
          using label_scan_unfold(4)[OF lt Some[unfolded B_def]] lab True by (simp add: B_def)
        with ih True split show ?thesis unfolding B_def[symmetric] by simp
      next
        case False
        have "label_scan z pfn e = pfn"
          using label_scan_unfold(3)[OF lt Some[unfolded B_def]] lab False by simp
        with lt hv False split show ?thesis unfolding B_def[symmetric] by simp
      qed
    qed
  qed
qed

lemma test_pages_isolated_cma_phase1:
  "label_scan z s e < e \<or> first_valid_page z s (e - s) = None \<Longrightarrow>
   test_pages_isolated_cma z s e skip = (- EBUSY, z, None)"
  by (auto simp: test_pages_isolated_cma_def Let_def)

lemma test_pages_isolated_cma_phase2:
  assumes "\<not> (label_scan z s e < e \<or> first_valid_page z s (e - s) = None)"
    and "isolated_walk_cma z s e skip = (p', z', failed)"
  shows "test_pages_isolated_cma z s e skip = (if p' < e then - EBUSY else 0, z', failed)"
  using assms
  by (auto simp: test_pages_isolated_cma_def test_page_isolated_in_pageblock_cma_def Let_def)

lemma test_pages_isolated_cma_cases:
  assumes t: "test_pages_isolated_cma z s e skip = (ret, z', failed)"
  obtains (phase1) "label_scan z s e < e \<or> first_valid_page z s (e - s) = None"
      "ret = - EBUSY" "z' = z" "failed = None"
    | (phase2) p' where "\<not> (label_scan z s e < e \<or> first_valid_page z s (e - s) = None)"
      "isolated_walk_cma z s e skip = (p', z', failed)" "ret = (if p' < e then - EBUSY else 0)"
proof (cases "label_scan z s e < e \<or> first_valid_page z s (e - s) = None")
  case True
  with test_pages_isolated_cma_phase1[OF True, of skip] t show ?thesis
    by (intro phase1) simp_all
next
  case False
  obtain p' z1 f1 where w: "isolated_walk_cma z s e skip = (p', z1, f1)"
    by (cases "isolated_walk_cma z s e skip")
  from test_pages_isolated_cma_phase2[OF False w] t
  have "ret = (if p' < e then - EBUSY else 0)" "z1 = z'" "f1 = failed" by simp_all
  with False w show ?thesis by (intro phase2[of p']) simp_all
qed

lemma buddy_step_effect:
  assumes "pfn < end_pfn" "pfn_valid z pfn" "PageBuddy z pfn"
  shows "(get_freepage_migratetype z pfn \<noteq> MIGRATE_ISOLATE \<longrightarrow>
            isolated_walk_cma z pfn end_pfn skip =
              isolated_walk_cma (repair_extent z pfn) (pfn + 2 ^ page_order z pfn) end_pfn skip \<and>
            p_free_list (mem_map (repair_extent z pfn) pfn) = MIGRATE_ISOLATE \<and>
            get_freepage_migratetype (repair_extent z pfn) pfn = MIGRATE_ISOLATE \<and>
            calls (repair_extent z pfn) =
              calls z @ [Call_move_freepages pfn (pfn + 2 ^ page_order z pfn - 1) MIGRATE_ISOLATE]) \<and>
         (get_freepage_migratetype z pfn = MIGRATE_ISOLATE \<longrightarrow>
            isolated_walk_cma z pfn end_pfn skip =
              isolated_walk_cma z (pfn + 2 ^ page_order z pfn) end_pfn skip) \<and>
         pfn + 2 ^ page_order z pfn \<le> fst (isolated_walk_cma z pfn end_pfn skip) \<and>
         snd (snd (isolated_walk_cma z pfn end_pfn skip)) \<noteq> Some pfn \<and>
         get_freepage_migratetype (fst (snd (isolated_walk_cma z pfn end_pfn skip))) pfn = MIGRATE_ISOLATE"
proof -
  note h = repair_extent_head[OF assms(2,3)]
  define z1 where "z1 = (if get_freepage_migratetype z pfn = MIGRATE_ISOLATE then z else repair_extent z pfn)"
  have w: "isolated_walk_cma z pfn end_pfn skip = isolated_walk_cma z1 (pfn + 2 ^ page_order z pfn) end_pfn skip"
    using isolated_walk_cma_repair[OF assms] isolated_walk_cma_buddy[OF assms]
    by (simp add: z1_def)
  have h1: "get_freepage_migratetype z1 pfn = MIGRATE_ISOLATE" using h by (simp add: z1_def)
  obtain p' z' failed where res: "isolated_walk_cma z1 (pfn + 2 ^ page_order z pfn) end_pfn skip = (p', z', failed)"
    by (cases "isolated_walk_cma z1 (pfn + 2 ^ page_order z pfn) end_pfn skip")
  from isolated_walk_cma_spec[of end_pfn skip z1 "pfn + 2 ^ page_order z pfn"] res
  have post: "isolated_walk_post end_pfn skip z1 (pfn + 2 ^ page_order z pfn) (p', z', failed)" by simp
  then have p: "walk_keeps z1 z'" "pfn + 2 ^ page_order z pfn \<le> p'" "\<And>f. failed = Some f \<Longrightarrow> f = p'"
    by (simp_all add: isolated_walk_post_def)
  have "0 < (2::nat) ^ page_order z pfn" by simp
  with p(2) have "pfn < p'" by arith
  with p(3) have nf: "failed \<noteq> Some pfn" by auto
  have fin: "get_freepage_migratetype z' pfn = MIGRATE_ISOLATE"
    by (rule walk_keeps_reads(7)[OF p(1) h1])
  have r1: "isolated_walk_cma z pfn end_pfn skip =
              isolated_walk_cma (repair_extent z pfn) (pfn + 2 ^ page_order z pfn) end_pfn skip"
    if "get_freepage_migratetype z pfn \<noteq> MIGRATE_ISOLATE"
    by (rule isolated_walk_cma_repair[OF assms that])
  have r2: "isolated_walk_cma z pfn end_pfn skip =
              isolated_walk_cma z (pfn + 2 ^ page_order z pfn) end_pfn skip"
    if "get_freepage_migratetype z pfn = MIGRATE_ISOLATE"
    by (rule isolated_walk_cma_buddy[OF assms that])
  have r3: "calls (repair_extent z pfn) =
              calls z @ [Call_move_freepages pfn (pfn + 2 ^ page_order z pfn - 1) MIGRATE_ISOLATE]"
    by simp
  have r4: "pfn + 2 ^ page_order z pfn \<le> fst (isolated_walk_cma z pfn end_pfn skip)"
    "snd (snd (isolated_walk_cma z pfn end_pfn skip)) \<noteq> Some pfn"
    "get_freepage_migratetype (fst (snd (isolated_walk_cma z pfn end_pfn skip))) pfn = MIGRATE_ISOLATE"
    using p(2) nf fin by (simp_all add: w res)
  from r1 r2 r3 r4 h show ?thesis by blast
qed

lemma failed_pfn_phases:
  assumes "test_pages_isolated_cma z start_pfn end_pfn skip = (ret, z', failed)"
  shows "(label_scan z start_pfn end_pfn < end_pfn \<or>
          first_valid_page z start_pfn (end_pfn - start_pfn) = None \<longrightarrow>
            ret = - EBUSY \<and> z' = z \<and> failed = None) \<and>
         (\<not> (label_scan z start_pfn end_pfn < end_pfn \<or>
             first_valid_page z start_pfn (end_pfn - start_pfn) = None) \<and> ret = - EBUSY \<longrightarrow>
            (\<exists>f. failed = Some f \<and> start_pfn \<le> f \<and> f < end_pfn \<and> pfn_valid z f \<and>
                 \<not> PageBuddy z' f \<and>
                 \<not> (page_count z' f = 0 \<and> get_freepage_migratetype z' f = MIGRATE_ISOLATE) \<and>
                 \<not> (skip \<and> PageHWPoison z' f) \<and>
                 (\<forall>g. start_pfn \<le> g \<and> g < f \<and> pfn_valid z g \<longrightarrow>
                      frame_isolated z' skip start_pfn g))) \<and>
         (ret = 0 \<longrightarrow> failed = None)"
  using assms
proof (cases rule: test_pages_isolated_cma_cases)
  case phase1
  then show ?thesis by (simp add: EBUSY_def)
next
  case (phase2 p')
  from isolated_walk_cma_spec[of end_pfn skip z start_pfn] phase2(2)
  have post: "isolated_walk_post end_pfn skip z start_pfn (p', z', failed)" by simp
  then have k: "walk_keeps z z'" and le: "start_pfn \<le> p'"
    and n: "failed = None \<Longrightarrow> end_pfn \<le> p'"
    and s: "\<And>f. failed = Some f \<Longrightarrow>
             f = p' \<and> p' < end_pfn \<and> pfn_valid z' f \<and> \<not> PageBuddy z' f \<and>
             \<not> (page_count z' f = 0 \<and> get_freepage_migratetype z' f = MIGRATE_ISOLATE) \<and>
             \<not> (skip \<and> PageHWPoison z' f)"
    and a: "\<And>f. start_pfn \<le> f \<Longrightarrow> f < p' \<Longrightarrow> pfn_valid z' f \<Longrightarrow> frame_isolated z' skip start_pfn f"
    by (simp_all add: isolated_walk_post_def)
  have v: "pfn_valid z' f = pfn_valid z f" for f by (rule walk_keeps_reads(6)[OF k])
  have busy: "\<exists>f. failed = Some f \<and> start_pfn \<le> f \<and> f < end_pfn \<and> pfn_valid z f \<and>
                 \<not> PageBuddy z' f \<and>
                 \<not> (page_count z' f = 0 \<and> get_freepage_migratetype z' f = MIGRATE_ISOLATE) \<and>
                 \<not> (skip \<and> PageHWPoison z' f) \<and>
                 (\<forall>g. start_pfn \<le> g \<and> g < f \<and> pfn_valid z g \<longrightarrow>
                      frame_isolated z' skip start_pfn g)"
    if "ret = - EBUSY"
  proof -
    from that phase2(3) have lt: "p' < end_pfn" by (simp add: EBUSY_def split: if_splits)
    with n obtain f where f: "failed = Some f" by (cases failed) auto
    from s[OF f] have fp: "f = p'" by simp
    from s[OF f] le a show ?thesis unfolding f fp v by blast
  qed
  have ok: "failed = None" if "ret = 0"
  proof (cases failed)
    case None then show ?thesis .
  next
    case (Some f)
    from s[OF Some] have "p' < end_pfn" by simp
    with that phase2(3) show ?thesis by (simp add: EBUSY_def)
  qed
  from phase2(1) busy ok show ?thesis by blast
qed

subsection \<open>The legacy verifier\<close>








section \<open>The claims\<close>




text \<open>
  C2. If \<open>test_pages_isolated_cma\<close> returns 0, then in the zone at the end of its walk
  every valid frame of the range is buddy-free with hint \<open>MIGRATE_ISOLATE\<close>, or has
  reference count 0 and hint \<open>MIGRATE_ISOLATE\<close>, or (when hardware-poisoned pages are
  skipped) is hardware-poisoned. A frame is buddy-free when it lies in the extent of a
  buddy page of the range; the walk steps over the extent without reading its other pages.
\<close>

theorem verified_range_isolated:
  assumes "test_pages_isolated_cma z start_pfn end_pfn skip = (0, z', failed)"
  shows "\<forall>f. start_pfn \<le> f \<and> f < end_pfn \<and> pfn_valid z f \<longrightarrow>
             frame_isolated z' skip start_pfn f"
  using assms
proof (cases rule: test_pages_isolated_cma_cases)
  case phase1
  then show ?thesis by (simp add: EBUSY_def)
next
  case (phase2 p')
  from phase2(3) have e: "end_pfn \<le> p'" by (simp add: EBUSY_def split: if_splits)
  from isolated_walk_cma_spec[of end_pfn skip z start_pfn] phase2(2)
  have post: "isolated_walk_post end_pfn skip z start_pfn (p', z', failed)" by simp
  then have k: "walk_keeps z z'"
    and a: "\<And>f. start_pfn \<le> f \<Longrightarrow> f < p' \<Longrightarrow> pfn_valid z' f \<Longrightarrow> frame_isolated z' skip start_pfn f"
    by (simp_all add: isolated_walk_post_def)
  show ?thesis
  proof (intro allI impI)
    fix f assume f: "start_pfn \<le> f \<and> f < end_pfn \<and> pfn_valid z f"
    with e have "f < p'" by simp
    moreover from f walk_keeps_reads(6)[OF k, of f] have "pfn_valid z' f" by simp
    ultimately show "frame_isolated z' skip start_pfn f" using f a by blast
  qed
qed

text \<open>
  An instance: in \<open>zone_d\<close>, with hardware-poisoned pages skipped, the verifier returns 0;
  frames 0 and 1 lie in the repaired buddy extent, frame 2 has reference count 0 and
  hint \<open>MIGRATE_ISOLATE\<close>, frame 3 is hardware-poisoned.
\<close>

theorem verified_range_isolated_witness:
  "frame_isolated (fst (snd (test_pages_isolated_cma zone_d 0 4 True))) True 0 0 \<and>
   frame_isolated (fst (snd (test_pages_isolated_cma zone_d 0 4 True))) True 0 1 \<and>
   frame_isolated (fst (snd (test_pages_isolated_cma zone_d 0 4 True))) True 0 2 \<and>
   frame_isolated (fst (snd (test_pages_isolated_cma zone_d 0 4 True))) True 0 3"
proof -
  have "fst (test_pages_isolated_cma zone_d 0 4 True) = 0" by code_simp
  then have t: "test_pages_isolated_cma zone_d 0 4 True =
      (0, fst (snd (test_pages_isolated_cma zone_d 0 4 True)), snd (snd (test_pages_isolated_cma zone_d 0 4 True)))"
    by (simp add: prod_eq_iff)
  have v: "pfn_valid zone_d 0" "pfn_valid zone_d 1" "pfn_valid zone_d 2" "pfn_valid zone_d 3"
    by (simp_all add: zone_d_def)
  from verified_range_isolated[OF t] v show ?thesis by simp
qed

text \<open>
  C3. At a valid frame of the walk whose page is a buddy page of order \<open>k\<close>: when the hint
  of the page is not \<open>MIGRATE_ISOLATE\<close>, the verifier calls \<open>move_freepages\<close> on the extent
  from the page to \<open>page + 2 ^ k - 1\<close> with target \<open>MIGRATE_ISOLATE\<close>, which puts the page on
  the \<open>MIGRATE_ISOLATE\<close> list and stamps its hint, and the walk goes on at \<open>pfn + 2 ^ k\<close> in
  that zone; when the hint is \<open>MIGRATE_ISOLATE\<close> the walk goes on at \<open>pfn + 2 ^ k\<close> in the
  same zone. In both cases the walk does not stop at this frame, and at its end the page
  has hint \<open>MIGRATE_ISOLATE\<close>.
\<close>

theorem misplaced_buddy_repaired:
  assumes "pfn < end_pfn" "pfn_valid z pfn" "PageBuddy z (pfn_to_page pfn)"
  shows "(get_freepage_migratetype z (pfn_to_page pfn) \<noteq> MIGRATE_ISOLATE \<longrightarrow>
            isolated_walk_cma z pfn end_pfn skip =
              isolated_walk_cma
                (fst (move_freepages
                        (note_call (Call_move_freepages pfn (pfn + 2 ^ page_order z pfn - 1) MIGRATE_ISOLATE) z)
                        pfn (pfn + 2 ^ page_order z pfn - 1) MIGRATE_ISOLATE))
                (pfn + 2 ^ page_order z pfn) end_pfn skip \<and>
            p_free_list (mem_map
                (fst (move_freepages
                        (note_call (Call_move_freepages pfn (pfn + 2 ^ page_order z pfn - 1) MIGRATE_ISOLATE) z)
                        pfn (pfn + 2 ^ page_order z pfn - 1) MIGRATE_ISOLATE)) pfn) = MIGRATE_ISOLATE \<and>
            get_freepage_migratetype
                (fst (move_freepages
                        (note_call (Call_move_freepages pfn (pfn + 2 ^ page_order z pfn - 1) MIGRATE_ISOLATE) z)
                        pfn (pfn + 2 ^ page_order z pfn - 1) MIGRATE_ISOLATE)) pfn = MIGRATE_ISOLATE \<and>
            calls
                (fst (move_freepages
                        (note_call (Call_move_freepages pfn (pfn + 2 ^ page_order z pfn - 1) MIGRATE_ISOLATE) z)
                        pfn (pfn + 2 ^ page_order z pfn - 1) MIGRATE_ISOLATE)) =
              calls z @ [Call_move_freepages pfn (pfn + 2 ^ page_order z pfn - 1) MIGRATE_ISOLATE]) \<and>
         (get_freepage_migratetype z (pfn_to_page pfn) = MIGRATE_ISOLATE \<longrightarrow>
            isolated_walk_cma z pfn end_pfn skip =
              isolated_walk_cma z (pfn + 2 ^ page_order z pfn) end_pfn skip) \<and>
         pfn + 2 ^ page_order z pfn \<le> fst (isolated_walk_cma z pfn end_pfn skip) \<and>
         snd (snd (isolated_walk_cma z pfn end_pfn skip)) \<noteq> Some pfn \<and>
         get_freepage_migratetype (fst (snd (isolated_walk_cma z pfn end_pfn skip))) pfn = MIGRATE_ISOLATE"
  using buddy_step_effect[OF assms(1,2) assms(3)[unfolded pfn_to_page_def], of skip]
  unfolding repair_extent_def pfn_to_page_def .

text \<open>
  An instance: the buddy page of order 1 at frame 0 of \<open>zone_d\<close>, whose hint is
  \<open>MIGRATE_MOVABLE\<close>.
\<close>

theorem misplaced_buddy_repaired_witness:
  "isolated_walk_cma zone_d 0 4 True =
     isolated_walk_cma
       (fst (move_freepages (note_call (Call_move_freepages 0 1 MIGRATE_ISOLATE) zone_d) 0 1 MIGRATE_ISOLATE))
       2 4 True \<and>
   p_free_list (mem_map
       (fst (move_freepages (note_call (Call_move_freepages 0 1 MIGRATE_ISOLATE) zone_d) 0 1 MIGRATE_ISOLATE))
       0) = MIGRATE_ISOLATE \<and>
   snd (snd (isolated_walk_cma zone_d 0 4 True)) \<noteq> Some 0 \<and>
   get_freepage_migratetype (fst (snd (isolated_walk_cma zone_d 0 4 True))) 0 = MIGRATE_ISOLATE"
proof -
  have a: "(0::nat) < 4" "pfn_valid zone_d 0" "PageBuddy zone_d (pfn_to_page 0)"
    by (simp_all add: zone_d_def PageBuddy_def pfn_to_page_def free_page_def)
  have o: "page_order zone_d 0 = 1" by (simp add: zone_d_def page_order_def free_page_def)
  have h: "get_freepage_migratetype zone_d (pfn_to_page 0) \<noteq> MIGRATE_ISOLATE"
    by (simp add: zone_d_def get_freepage_migratetype_def pfn_to_page_def free_page_def)
  have n: "(0::nat) + 2 ^ 1 = 2" "(2::nat) - 1 = 1" by simp_all
  note t = misplaced_buddy_repaired[OF a, of True, unfolded o n]
  from t h show ?thesis by blast
qed

text \<open>
  C4 (amended). When \<open>test_pages_isolated_cma\<close> fails in its label check (a pageblock with
  a valid frame is not labelled \<open>MIGRATE_ISOLATE\<close>, or the range has no valid frame), it
  returns \<open>-EBUSY\<close> and writes nothing to \<open>*pfailed_pfn\<close>. When the label check passes and
  it returns \<open>-EBUSY\<close>, it has written to \<open>*pfailed_pfn\<close> the first offending frame number:
  a valid frame of the range whose page is no buddy page, has not both reference count 0
  and hint \<open>MIGRATE_ISOLATE\<close>, and is not a skipped hardware-poisoned page, all valid frames
  before it in the range being accepted. When it returns 0 it has written nothing.
\<close>

theorem failed_pfn_written:
  assumes "test_pages_isolated_cma z start_pfn end_pfn skip = (ret, z', failed)"
  shows "(label_scan z start_pfn end_pfn < end_pfn \<or>
          first_valid_page z start_pfn (end_pfn - start_pfn) = None \<longrightarrow>
            ret = - EBUSY \<and> z' = z \<and> failed = None) \<and>
         (\<not> (label_scan z start_pfn end_pfn < end_pfn \<or>
             first_valid_page z start_pfn (end_pfn - start_pfn) = None) \<and> ret = - EBUSY \<longrightarrow>
            (\<exists>f. failed = Some f \<and> start_pfn \<le> f \<and> f < end_pfn \<and> pfn_valid z f \<and>
                 \<not> PageBuddy z' f \<and>
                 \<not> (page_count z' f = 0 \<and> get_freepage_migratetype z' f = MIGRATE_ISOLATE) \<and>
                 \<not> (skip \<and> PageHWPoison z' f) \<and>
                 (\<forall>g. start_pfn \<le> g \<and> g < f \<and> pfn_valid z g \<longrightarrow>
                      frame_isolated z' skip start_pfn g))) \<and>
         (ret = 0 \<longrightarrow> failed = None) \<and>
         (pageblock_nr_pages z dvd start_pfn \<longrightarrow>
            (label_scan z start_pfn end_pfn < end_pfn \<longleftrightarrow>
               (\<exists>b. start_pfn div pageblock_nr_pages z \<le> b \<and> b * pageblock_nr_pages z < end_pfn \<and>
                    pageblock_has_valid z b \<and> pageblock_flags z b \<noteq> MIGRATE_ISOLATE))) \<and>
         (start_pfn \<le> end_pfn \<longrightarrow>
            (first_valid_page z start_pfn (end_pfn - start_pfn) = None \<longleftrightarrow>
               (\<forall>f. start_pfn \<le> f \<and> f < end_pfn \<longrightarrow> \<not> pfn_valid z f)))"
proof -
  have l: "label_scan z start_pfn end_pfn < end_pfn \<longleftrightarrow>
               (\<exists>b. start_pfn div pageblock_nr_pages z \<le> b \<and> b * pageblock_nr_pages z < end_pfn \<and>
                    pageblock_has_valid z b \<and> pageblock_flags z b \<noteq> MIGRATE_ISOLATE)"
    if "pageblock_nr_pages z dvd start_pfn"
    by (rule label_scan_stops[OF that])
  have f: "first_valid_page z start_pfn (end_pfn - start_pfn) = None \<longleftrightarrow>
               (\<forall>f. start_pfn \<le> f \<and> f < end_pfn \<longrightarrow> \<not> pfn_valid z f)"
    if "start_pfn \<le> end_pfn"
    unfolding first_valid_page_None using that by simp
  note m = failed_pfn_phases[OF assms]
  note a = m[THEN conjunct1] and b = m[THEN conjunct2, THEN conjunct1]
    and c = m[THEN conjunct2, THEN conjunct2]
  from l have d: "pageblock_nr_pages z dvd start_pfn \<longrightarrow>
            (label_scan z start_pfn end_pfn < end_pfn \<longleftrightarrow>
               (\<exists>b. start_pfn div pageblock_nr_pages z \<le> b \<and> b * pageblock_nr_pages z < end_pfn \<and>
                    pageblock_has_valid z b \<and> pageblock_flags z b \<noteq> MIGRATE_ISOLATE))"
    by (rule impI)
  from f have e: "start_pfn \<le> end_pfn \<longrightarrow>
            (first_valid_page z start_pfn (end_pfn - start_pfn) = None \<longleftrightarrow>
               (\<forall>f. start_pfn \<le> f \<and> f < end_pfn \<longrightarrow> \<not> pfn_valid z f))"
    by (rule impI)
  from a b c d e show ?thesis by (intro conjI)
qed

text \<open>
  An instance: in \<open>zone_d\<close>, with hardware-poisoned pages not skipped, the label check
  passes and the walk stops at the poisoned page.
\<close>

theorem failed_pfn_written_witness:
  "\<exists>f. snd (snd (test_pages_isolated_cma zone_d 0 4 False)) = Some f \<and> 0 \<le> f \<and> f < 4 \<and>
       pfn_valid zone_d f \<and>
       \<not> PageBuddy (fst (snd (test_pages_isolated_cma zone_d 0 4 False))) f \<and>
       \<not> (page_count (fst (snd (test_pages_isolated_cma zone_d 0 4 False))) f = 0 \<and>
          get_freepage_migratetype (fst (snd (test_pages_isolated_cma zone_d 0 4 False))) f = MIGRATE_ISOLATE)"
proof -
  have t: "test_pages_isolated_cma zone_d 0 4 False =
      (fst (test_pages_isolated_cma zone_d 0 4 False),
       fst (snd (test_pages_isolated_cma zone_d 0 4 False)),
       snd (snd (test_pages_isolated_cma zone_d 0 4 False)))"
    by simp
  have r: "fst (test_pages_isolated_cma zone_d 0 4 False) = - EBUSY" by code_simp
  have p: "\<not> (label_scan zone_d 0 4 < 4 \<or> first_valid_page zone_d 0 (4 - 0) = None)" by code_simp
  from failed_pfn_written[OF t] r p show ?thesis by auto
qed

text \<open>
  The claim as stated fails: in \<open>zone_a\<close> the pageblocks are labelled \<open>MIGRATE_MOVABLE\<close>;
  the label check stops at frame 0, the verifier returns \<open>-EBUSY\<close>, and nothing is written
  to \<open>*pfailed_pfn\<close>.
\<close>

theorem failed_pfn_written_counterexample:
  "label_scan zone_a 0 4 = 0 \<and>
   fst (test_pages_isolated_cma zone_a 0 4 False) = - EBUSY \<and>
   snd (snd (test_pages_isolated_cma zone_a 0 4 False)) = None"
  by code_simp

text \<open>
  C5 (amended). On a range with no valid frame, and so on an empty range,
  \<open>start_isolate_page_range_cma\<close> and \<open>undo_isolate_page_range_cma\<close> with aligned bounds
  return 0 and leave the zone as it was; \<open>test_pages_isolated_cma\<close> leaves the zone as it was
  and writes nothing to \<open>*pfailed_pfn\<close>, but returns \<open>-EBUSY\<close>: \<open>__first_valid_page\<close> finds
  no page and the source tests \<open>!page\<close>.
\<close>

theorem absent_range:
  assumes absent: "\<forall>f. start_pfn \<le> f \<and> f < end_pfn \<longrightarrow> \<not> pfn_valid z f"
  shows "(pageblock_nr_pages z dvd start_pfn \<and> pageblock_nr_pages z dvd end_pfn \<longrightarrow>
            start_isolate_page_range_cma hup z start_pfn end_pfn mt skip = Inr (0, z) \<and>
            undo_isolate_page_range_cma z start_pfn end_pfn mt = Inr (0, z)) \<and>
         (start_pfn \<le> end_pfn \<longrightarrow>
            test_pages_isolated_cma z start_pfn end_pfn skip = (- EBUSY, z, None))"
proof (intro conjI impI)
  assume al: "pageblock_nr_pages z dvd start_pfn \<and> pageblock_nr_pages z dvd end_pfn"
  have nb: "\<not> pageblock_has_valid z b"
    if "start_pfn div pageblock_nr_pages z \<le> b" "b * pageblock_nr_pages z < end_pfn" for b
    using no_valid_block[of z start_pfn end_pfn b] al absent that by blast
  have "isolate_scan hup z start_pfn end_pfn skip = (z, None)"
    using al nb by (intro isolate_scan_noop) simp_all
  with al show "start_isolate_page_range_cma hup z start_pfn end_pfn mt skip = Inr (0, z)"
    by (simp add: start_isolate_aligned)
  have "undo_scan z start_pfn end_pfn mt = z"
    using al nb by (intro undo_scan_noop) auto
  with al show "undo_isolate_page_range_cma z start_pfn end_pfn mt = Inr (0, z)"
    by (simp add: undo_isolate_aligned)
next
  assume "start_pfn \<le> end_pfn"
  then show "test_pages_isolated_cma z start_pfn end_pfn skip = (- EBUSY, z, None)"
    using absent by (intro test_pages_isolated_cma_absent) auto
qed

text \<open>
  An instance: in \<open>zone_c\<close> the range \<open>[0, 2)\<close> has no valid frame, and \<open>[4, 4)\<close> is empty.
\<close>

theorem absent_range_witness:
  "start_isolate_page_range_cma (pinned_from 4) zone_c 0 2 MIGRATE_MOVABLE False = Inr (0, zone_c) \<and>
   undo_isolate_page_range_cma zone_c 0 2 MIGRATE_MOVABLE = Inr (0, zone_c) \<and>
   test_pages_isolated_cma zone_c 0 2 False = (- EBUSY, zone_c, None) \<and>
   start_isolate_page_range_cma (pinned_from 4) zone_c 4 4 MIGRATE_MOVABLE False = Inr (0, zone_c) \<and>
   undo_isolate_page_range_cma zone_c 4 4 MIGRATE_MOVABLE = Inr (0, zone_c) \<and>
   test_pages_isolated_cma zone_c 4 4 False = (- EBUSY, zone_c, None)"
proof -
  have B: "pageblock_nr_pages zone_c = 2" by (simp add: pageblock_nr_pages_def zone_c_def)
  have a1: "\<forall>f. 0 \<le> f \<and> f < 2 \<longrightarrow> \<not> pfn_valid zone_c f" by (simp add: zone_c_def)
  have a2: "\<forall>f. 4 \<le> f \<and> f < 4 \<longrightarrow> \<not> pfn_valid zone_c f" by auto
  from absent_range[OF a1, of "pinned_from 4" MIGRATE_MOVABLE False]
       absent_range[OF a2, of "pinned_from 4" MIGRATE_MOVABLE False]
  show ?thesis by (simp add: B)
qed

text \<open>
  The claim as stated fails: the verifier returns \<open>-EBUSY\<close>, not 0, on the empty range
  \<open>[0, 0)\<close> of \<open>zone_a\<close> and on the range \<open>[0, 2)\<close> of \<open>zone_c\<close>, whose frames are all absent.
\<close>

theorem absent_range_counterexample:
  "fst (test_pages_isolated_cma zone_a 0 0 False) = - EBUSY \<and>
   fst (test_pages_isolated_cma zone_c 0 2 False) = - EBUSY \<and>
   - EBUSY \<noteq> (0::int)"
  by code_simp

text \<open>
  C6 (amended). With aligned bounds \<open>undo_isolate_page_range_cma\<close> returns 0. For a target
  migratetype other than \<open>MIGRATE_ISOLATE\<close>, running it again on the zone it returned, with
  the same range and target, returns that zone unchanged. A pageblock whose label is not
  \<open>MIGRATE_ISOLATE\<close> keeps its label and the pages of its frames, and
  \<open>unset_migratetype_isolate_cma\<close> on a page of such a pageblock returns the zone as it was.
\<close>

theorem undo_idempotent:
  assumes al: "pageblock_nr_pages z dvd start_pfn" "pageblock_nr_pages z dvd end_pfn"
  shows "ret_of (undo_isolate_page_range_cma z start_pfn end_pfn mt) = Some 0 \<and>
         (mt \<noteq> MIGRATE_ISOLATE \<longrightarrow>
            undo_isolate_page_range_cma
              (zone_of (undo_isolate_page_range_cma z start_pfn end_pfn mt)) start_pfn end_pfn mt =
            undo_isolate_page_range_cma z start_pfn end_pfn mt) \<and>
         (\<forall>b. pageblock_flags z b \<noteq> MIGRATE_ISOLATE \<longrightarrow>
            pageblock_flags (zone_of (undo_isolate_page_range_cma z start_pfn end_pfn mt)) b =
              pageblock_flags z b \<and>
            (\<forall>f. f div pageblock_nr_pages z = b \<longrightarrow>
               mem_map (zone_of (undo_isolate_page_range_cma z start_pfn end_pfn mt)) f = mem_map z f)) \<and>
         (get_pageblock_migratetype z pg \<noteq> MIGRATE_ISOLATE \<longrightarrow>
            unset_migratetype_isolate_cma z pg mt = z)"
proof -
  define z1 where "z1 = undo_scan z start_pfn end_pfn mt"
  have u: "undo_isolate_page_range_cma z start_pfn end_pfn mt = Inr (0, z1)"
    by (simp add: undo_isolate_aligned[OF al] z1_def)
  from undo_scan_spec[OF al(1), of end_pfn mt] have post: "undo_scan_post end_pfn mt z start_pfn z1"
    by (simp add: z1_def)
  then have c: "pageblock_order z1 = pageblock_order z"
    and fl: "\<And>b. pageblock_flags z b \<noteq> MIGRATE_ISOLATE \<Longrightarrow> pageblock_flags z1 b = pageblock_flags z b"
    and mm: "\<And>f. pageblock_flags z (f div pageblock_nr_pages z) \<noteq> MIGRATE_ISOLATE \<Longrightarrow>
               mem_map z1 f = mem_map z f"
    by (simp_all add: undo_scan_post_def)
  have nr: "pageblock_nr_pages z1 = pageblock_nr_pages z" by (simp add: pageblock_nr_pages_def c)
  have again: "undo_isolate_page_range_cma z1 start_pfn end_pfn mt = Inr (0, z1)"
    if "mt \<noteq> MIGRATE_ISOLATE"
  proof -
    have al1: "pageblock_nr_pages z1 dvd start_pfn" "pageblock_nr_pages z1 dvd end_pfn"
      using al by (simp_all add: nr)
    have "undo_scan z1 start_pfn end_pfn mt = z1"
      using undo_scan_settles[OF al(1) that, of end_pfn] by (simp add: z1_def)
    then show ?thesis by (simp add: undo_isolate_aligned[OF al1])
  qed
  show ?thesis
    unfolding u using again fl mm by (auto simp: unset_noop)
qed

text \<open>
  An instance: \<open>zone_b\<close>, whose pageblock 0 is labelled \<open>MIGRATE_ISOLATE\<close> and pageblock 1
  \<open>MIGRATE_MOVABLE\<close>, with target \<open>MIGRATE_CMA\<close>.
\<close>

theorem undo_idempotent_witness:
  "ret_of (undo_isolate_page_range_cma zone_b 0 4 MIGRATE_CMA) = Some 0 \<and>
   undo_isolate_page_range_cma (zone_of (undo_isolate_page_range_cma zone_b 0 4 MIGRATE_CMA)) 0 4 MIGRATE_CMA =
     undo_isolate_page_range_cma zone_b 0 4 MIGRATE_CMA \<and>
   pageblock_flags (zone_of (undo_isolate_page_range_cma zone_b 0 4 MIGRATE_CMA)) 1 = MIGRATE_MOVABLE \<and>
   mem_map (zone_of (undo_isolate_page_range_cma zone_b 0 4 MIGRATE_CMA)) 2 = used_page \<and>
   unset_migratetype_isolate_cma zone_b 2 MIGRATE_CMA = zone_b"
proof -
  have B: "pageblock_nr_pages zone_b = 2" by (simp add: pageblock_nr_pages_def zone_b_def)
  have al: "pageblock_nr_pages zone_b dvd 0" "pageblock_nr_pages zone_b dvd 4" by (simp_all add: B)
  have f: "pageblock_flags zone_b 1 = MIGRATE_MOVABLE" "mem_map zone_b 2 = used_page"
    by (simp_all add: zone_b_def)
  have ne: "pageblock_flags zone_b 1 \<noteq> MIGRATE_ISOLATE"
    "get_pageblock_migratetype zone_b 2 \<noteq> MIGRATE_ISOLATE"
    by (simp_all add: zone_b_def get_pageblock_migratetype_def pageblock_nr_pages_def)
  note t = undo_idempotent[OF al, of MIGRATE_CMA 2, unfolded B]
  from t have a: "ret_of (undo_isolate_page_range_cma zone_b 0 4 MIGRATE_CMA) = Some 0"
    by (rule conjunct1)
  from t have b: "undo_isolate_page_range_cma
       (zone_of (undo_isolate_page_range_cma zone_b 0 4 MIGRATE_CMA)) 0 4 MIGRATE_CMA =
      undo_isolate_page_range_cma zone_b 0 4 MIGRATE_CMA"
    by simp
  from t ne(1) have c: "pageblock_flags (zone_of (undo_isolate_page_range_cma zone_b 0 4 MIGRATE_CMA)) 1 =
       pageblock_flags zone_b 1 \<and>
       (\<forall>f. f div 2 = 1 \<longrightarrow>
          mem_map (zone_of (undo_isolate_page_range_cma zone_b 0 4 MIGRATE_CMA)) f = mem_map zone_b f)"
    by blast
  then have c2: "mem_map (zone_of (undo_isolate_page_range_cma zone_b 0 4 MIGRATE_CMA)) 2 = mem_map zone_b 2"
    by simp
  from t ne(2) have d: "unset_migratetype_isolate_cma zone_b 2 MIGRATE_CMA = zone_b" by blast
  from a b c c2 d f show ?thesis by simp
qed

text \<open>
  The claim as stated fails for the target \<open>MIGRATE_ISOLATE\<close>: pageblock 0 of \<open>zone_b\<close>
  keeps its label, so each run moves its free page again and adds the moved count to the
  free-page counter: 1 after one run, 2 after two.
\<close>

theorem undo_idempotent_counterexample:
  "vm_stat (zone_of (undo_isolate_page_range_cma zone_b 0 2 MIGRATE_ISOLATE)) MIGRATE_ISOLATE = 1 \<and>
   vm_stat (zone_of (undo_isolate_page_range_cma
                       (zone_of (undo_isolate_page_range_cma zone_b 0 2 MIGRATE_ISOLATE))
                       0 2 MIGRATE_ISOLATE)) MIGRATE_ISOLATE = 2"
  by code_simp

text \<open>
  C7 (amended). Let the bounds be aligned, let every pageblock of the range hold a valid
  frame, and let \<open>start_isolate_page_range_cma\<close> return 0. Then
  \<open>undo_isolate_page_range_cma\<close> with target \<open>M\<close>, run on the zone the isolation returned,
  returns 0, and afterwards every pageblock of the range is labelled \<open>M\<close> and every free
  (buddy) page of the range sits on the free list of \<open>M\<close> with hint \<open>M\<close>; so none of them
  is on the \<open>MIGRATE_ISOLATE\<close> list when \<open>M\<close> is not \<open>MIGRATE_ISOLATE\<close>.
\<close>

theorem isolate_undo_roundtrip:
  assumes al: "pageblock_nr_pages z dvd start_pfn" "pageblock_nr_pages z dvd end_pfn"
    and hv: "\<forall>b. start_pfn div pageblock_nr_pages z \<le> b \<and> b < end_pfn div pageblock_nr_pages z
               \<longrightarrow> pageblock_has_valid z b"
    and iso: "start_isolate_page_range_cma hup z start_pfn end_pfn mt0 skip = Inr (0, z1)"
  shows "ret_of (undo_isolate_page_range_cma z1 start_pfn end_pfn M) = Some 0 \<and>
         (\<forall>b. start_pfn div pageblock_nr_pages z \<le> b \<and> b < end_pfn div pageblock_nr_pages z \<longrightarrow>
            pageblock_flags (zone_of (undo_isolate_page_range_cma z1 start_pfn end_pfn M)) b = M) \<and>
         (\<forall>f. start_pfn \<le> f \<and> f < end_pfn \<and>
              pfn_valid (zone_of (undo_isolate_page_range_cma z1 start_pfn end_pfn M)) f \<and>
              PageBuddy (zone_of (undo_isolate_page_range_cma z1 start_pfn end_pfn M)) f \<longrightarrow>
            p_free_list (mem_map (zone_of (undo_isolate_page_range_cma z1 start_pfn end_pfn M)) f) = M \<and>
            get_freepage_migratetype (zone_of (undo_isolate_page_range_cma z1 start_pfn end_pfn M)) f = M) \<and>
         (M \<noteq> MIGRATE_ISOLATE \<longrightarrow>
            (\<forall>f. start_pfn \<le> f \<and> f < end_pfn \<and>
              pfn_valid (zone_of (undo_isolate_page_range_cma z1 start_pfn end_pfn M)) f \<and>
              PageBuddy (zone_of (undo_isolate_page_range_cma z1 start_pfn end_pfn M)) f \<longrightarrow>
              p_free_list (mem_map (zone_of (undo_isolate_page_range_cma z1 start_pfn end_pfn M)) f)
                \<noteq> MIGRATE_ISOLATE))"
proof -
  define B where "B = pageblock_nr_pages z"
  have B: "0 < B" by (simp add: B_def pageblock_nr_pages_pos)
  have alB: "B dvd start_pfn" "B dvd end_pfn" using al by (simp_all add: B_def)
  have lt: "b * B < end_pfn \<longleftrightarrow> b < end_pfn div B" for b
    by (rule aligned_block_less[OF alB(2) B])
  from iso have fw: "isolate_scan hup z start_pfn end_pfn skip = (z1, None)"
    by (auto simp: start_isolate_aligned[OF al] EBUSY_def split: prod.splits option.splits)
  from isolate_scan_spec[OF al(1), of end_pfn skip hup] fw
  have post1: "isolate_scan_post end_pfn skip z start_pfn (z1, None)" by simp
  then have c1: "pageblock_order z1 = pageblock_order z" "pfn_valid z1 = pfn_valid z"
    and fl1: "\<And>b. pageblock_flags z1 b =
        (if start_pfn div B \<le> b \<and> b < end_pfn div B \<and> pageblock_has_valid z b
         then MIGRATE_ISOLATE else pageblock_flags z b)"
    by (simp_all add: isolate_scan_post_def scan_limit_def B_def[symmetric] lt)
  have nr1: "pageblock_nr_pages z1 = B" by (simp add: pageblock_nr_pages_def c1 B_def)
  have hv1: "pageblock_has_valid z1 b = pageblock_has_valid z b" for b
    by (rule pageblock_has_valid_cong) (simp_all add: c1)
  have iso1: "pageblock_flags z1 b = MIGRATE_ISOLATE" if "start_pfn div B \<le> b" "b < end_pfn div B" for b
    using that hv by (simp add: fl1 B_def)
  define z2 where "z2 = undo_scan z1 start_pfn end_pfn M"
  have u: "undo_isolate_page_range_cma z1 start_pfn end_pfn M = Inr (0, z2)"
    using undo_isolate_aligned[of z1 start_pfn end_pfn M] alB by (simp add: nr1 z2_def)
  from undo_scan_spec[of z1 start_pfn end_pfn M] alB(1)
  have post2: "undo_scan_post end_pfn M z1 start_pfn z2" by (simp add: nr1 z2_def)
  then have c2: "pfn_valid z2 = pfn_valid z1"
    and fl2: "\<And>b. pageblock_flags z2 b =
            (if start_pfn div B \<le> b \<and> b < end_pfn div B \<and>
                pageblock_has_valid z b \<and> pageblock_flags z1 b = MIGRATE_ISOLATE
             then M else pageblock_flags z1 b)"
    and mm2: "\<And>f. mem_map z2 f =
            (if start_pfn div B \<le> f div B \<and> f div B < end_pfn div B \<and>
                pageblock_flags z1 (f div B) = MIGRATE_ISOLATE \<and>
                pfn_valid z1 f \<and> p_buddy (mem_map z1 f)
             then (mem_map z1 f)\<lparr>p_freepage_mt := M, p_free_list := M\<rparr> else mem_map z1 f)"
    by (simp_all add: undo_scan_post_def nr1 hv1 lt)
  have labels: "pageblock_flags z2 b = M" if "start_pfn div B \<le> b" "b < end_pfn div B" for b
    using that hv iso1[OF that] by (simp add: fl2 B_def)
  have pages: "p_free_list (mem_map z2 f) = M \<and> get_freepage_migratetype z2 f = M"
    if f: "start_pfn \<le> f" "f < end_pfn" "pfn_valid z2 f" "PageBuddy z2 f" for f
  proof -
    note fr = frame_in_range[OF B alB f(1,2)]
    have i: "pageblock_flags z1 (f div B) = MIGRATE_ISOLATE" by (rule iso1[OF fr(1) fr(3)])
    have v: "pfn_valid z1 f" using f(3) by (simp add: c2)
    have b: "p_buddy (mem_map z1 f)" using f(4) by (simp add: PageBuddy_def mm2 split: if_splits)
    from fr i v b show ?thesis by (simp add: mm2 get_freepage_migratetype_def)
  qed
  show ?thesis
    unfolding u B_def[symmetric] using labels pages by auto
qed

text \<open>
  An instance: \<open>zone_a\<close>, nothing pinned, target \<open>MIGRATE_CMA\<close>.
\<close>

theorem isolate_undo_roundtrip_witness:
  "ret_of (undo_isolate_page_range_cma
             (zone_of (start_isolate_page_range_cma (pinned_from 4) zone_a 0 4 MIGRATE_MOVABLE False))
             0 4 MIGRATE_CMA) = Some 0 \<and>
   pageblock_flags (zone_of (undo_isolate_page_range_cma
             (zone_of (start_isolate_page_range_cma (pinned_from 4) zone_a 0 4 MIGRATE_MOVABLE False))
             0 4 MIGRATE_CMA)) 0 = MIGRATE_CMA \<and>
   pageblock_flags (zone_of (undo_isolate_page_range_cma
             (zone_of (start_isolate_page_range_cma (pinned_from 4) zone_a 0 4 MIGRATE_MOVABLE False))
             0 4 MIGRATE_CMA)) 1 = MIGRATE_CMA \<and>
   p_free_list (mem_map (zone_of (undo_isolate_page_range_cma
             (zone_of (start_isolate_page_range_cma (pinned_from 4) zone_a 0 4 MIGRATE_MOVABLE False))
             0 4 MIGRATE_CMA)) 0) = MIGRATE_CMA"
proof -
  define z1 where "z1 = zone_of (start_isolate_page_range_cma (pinned_from 4) zone_a 0 4 MIGRATE_MOVABLE False)"
  define z2 where "z2 = zone_of (undo_isolate_page_range_cma z1 0 4 MIGRATE_CMA)"
  have B: "pageblock_nr_pages zone_a = 2" by (simp add: pageblock_nr_pages_def zone_a_def)
  have al: "pageblock_nr_pages zone_a dvd 0" "pageblock_nr_pages zone_a dvd 4" by (simp_all add: B)
  have h0: "pageblock_has_valid zone_a 0" by code_simp
  have h1: "pageblock_has_valid zone_a 1" by code_simp
  have hv: "\<forall>b. 0 div pageblock_nr_pages zone_a \<le> b \<and> b < 4 div pageblock_nr_pages zone_a
               \<longrightarrow> pageblock_has_valid zone_a b"
  proof (intro allI impI)
    fix b assume "0 div pageblock_nr_pages zone_a \<le> b \<and> b < 4 div pageblock_nr_pages zone_a"
    then have "b = 0 \<or> b = 1" by (auto simp: B)
    with h0 h1 show "pageblock_has_valid zone_a b" by auto
  qed
  have "ret_of (start_isolate_page_range_cma (pinned_from 4) zone_a 0 4 MIGRATE_MOVABLE False) = Some 0"
    by code_simp
  then have iso: "start_isolate_page_range_cma (pinned_from 4) zone_a 0 4 MIGRATE_MOVABLE False = Inr (0, z1)"
    unfolding z1_def by (rule ret_of_Some)
  have v: "pfn_valid z2 0" unfolding z2_def z1_def by code_simp
  have b: "PageBuddy z2 0" unfolding z2_def z1_def by code_simp
  have r: "(0::nat) \<le> 0 \<and> (0::nat) < 4" "(0::nat) < 2" "(1::nat) < 2" by simp_all
  from isolate_undo_roundtrip[OF al hv iso, of MIGRATE_CMA] v b r show ?thesis
    unfolding z2_def[symmetric] z1_def[symmetric] B by simp
qed

text \<open>
  The claim as stated fails for \<open>M = MIGRATE_ISOLATE\<close>: after the isolation of \<open>[0, 4)\<close>
  in \<open>zone_a\<close> and the undo with that target, the free page at frame 0 is on the
  \<open>MIGRATE_ISOLATE\<close> free list.
\<close>

theorem isolate_undo_roundtrip_counterexample:
  "pageblock_has_valid zone_a 0 \<and> pageblock_has_valid zone_a 1 \<and>
   ret_of (start_isolate_page_range_cma (pinned_from 4) zone_a 0 4 MIGRATE_MOVABLE False) = Some 0 \<and>
   pfn_valid (zone_of (undo_isolate_page_range_cma
             (zone_of (start_isolate_page_range_cma (pinned_from 4) zone_a 0 4 MIGRATE_MOVABLE False))
             0 4 MIGRATE_ISOLATE)) 0 \<and>
   PageBuddy (zone_of (undo_isolate_page_range_cma
             (zone_of (start_isolate_page_range_cma (pinned_from 4) zone_a 0 4 MIGRATE_MOVABLE False))
             0 4 MIGRATE_ISOLATE)) 0 \<and>
   p_free_list (mem_map (zone_of (undo_isolate_page_range_cma
             (zone_of (start_isolate_page_range_cma (pinned_from 4) zone_a 0 4 MIGRATE_MOVABLE False))
             0 4 MIGRATE_ISOLATE)) 0) = MIGRATE_ISOLATE"
  by code_simp

text \<open>
  C8. A call of \<open>start_isolate_page_range_cma\<close> or \<open>undo_isolate_page_range_cma\<close> whose
  start or end is not a multiple of \<open>pageblock_nr_pages\<close> aborts at \<open>BUG_ON\<close> with the zone
  as it was at the call; with both bounds aligned neither call aborts, and the undo
  returns 0.
\<close>

theorem range_alignment:
  "(\<not> pageblock_nr_pages z dvd start_pfn \<or> \<not> pageblock_nr_pages z dvd end_pfn \<longrightarrow>
      start_isolate_page_range_cma hup z start_pfn end_pfn mt skip = Inl (BUG, z) \<and>
      undo_isolate_page_range_cma z start_pfn end_pfn mt = Inl (BUG, z)) \<and>
   (pageblock_nr_pages z dvd start_pfn \<and> pageblock_nr_pages z dvd end_pfn \<longrightarrow>
      (\<exists>ret z'. start_isolate_page_range_cma hup z start_pfn end_pfn mt skip = Inr (ret, z')) \<and>
      (\<exists>z'. undo_isolate_page_range_cma z start_pfn end_pfn mt = Inr (0, z')))"
proof (intro conjI impI)
  assume "\<not> pageblock_nr_pages z dvd start_pfn \<or> \<not> pageblock_nr_pages z dvd end_pfn"
  then have n: "\<not> (pageblock_nr_pages z dvd start_pfn \<and> pageblock_nr_pages z dvd end_pfn)" by simp
  show "start_isolate_page_range_cma hup z start_pfn end_pfn mt skip = Inl (BUG, z)"
    by (rule start_isolate_unaligned[OF n])
  show "undo_isolate_page_range_cma z start_pfn end_pfn mt = Inl (BUG, z)"
    by (rule undo_isolate_unaligned[OF n])
next
  assume a: "pageblock_nr_pages z dvd start_pfn \<and> pageblock_nr_pages z dvd end_pfn"
  then show "\<exists>ret z'. start_isolate_page_range_cma hup z start_pfn end_pfn mt skip = Inr (ret, z')"
    by (simp add: start_isolate_aligned split: prod.splits option.splits)
  from a show "\<exists>z'. undo_isolate_page_range_cma z start_pfn end_pfn mt = Inr (0, z')"
    by (simp add: undo_isolate_aligned)
qed

theorem range_alignment_witness:
  "start_isolate_page_range_cma (pinned_from 2) zone_a 1 4 MIGRATE_MOVABLE False = Inl (BUG, zone_a) \<and>
   undo_isolate_page_range_cma zone_a 1 4 MIGRATE_MOVABLE = Inl (BUG, zone_a) \<and>
   (\<exists>ret z'. start_isolate_page_range_cma (pinned_from 2) zone_a 0 4 MIGRATE_MOVABLE False = Inr (ret, z')) \<and>
   (\<exists>z'. undo_isolate_page_range_cma zone_a 0 4 MIGRATE_MOVABLE = Inr (0, z'))"
proof -
  have B: "pageblock_nr_pages zone_a = 2" by (simp add: pageblock_nr_pages_def zone_a_def)
  have a: "\<not> pageblock_nr_pages zone_a dvd 1" "pageblock_nr_pages zone_a dvd 0" "pageblock_nr_pages zone_a dvd 4"
    by (simp_all add: B)
  from range_alignment[of zone_a 1 4 "pinned_from 2" MIGRATE_MOVABLE False]
       range_alignment[of zone_a 0 4 "pinned_from 2" MIGRATE_MOVABLE False] a
  show ?thesis by blast
qed





end
